theory Spec2Isabelle
  imports Main "HOL-Library.Word"
begin

section \<open>LLRPMain.js: the session of an LLRP reader client\<close>

text \<open>
  The development embeds \<^verbatim>\<open>src/llrp/LLRPMain.js\<close>. The closure variables of
  \<^verbatim>\<open>llrpMain\<close> become the fields of a record that every handler takes and
  returns. What the handlers do to the outside world (socket writes, emitted events,
  console output, calls into the decoder module) and the assignments to the two flags
  are appended, in program order, to the field \<open>trace\<close>. Callbacks handed to
  \<^verbatim>\<open>process.nextTick\<close> are appended to the field \<open>tickQueue\<close> and run when the
  current callback has returned. Of \<^verbatim>\<open>connect\<close>, the callback for \<^verbatim>\<open>data\<close> is
  embedded; the callbacks for the socket timeout, \<^verbatim>\<open>end\<close> and \<^verbatim>\<open>error\<close> only log
  and emit, and read or write neither flag.
\<close>

subsection \<open>Data\<close>

type_synonym byte = "8 word"
type_synonym buffer = "byte list"

text \<open>An object returned by \<^verbatim>\<open>decode.parameter\<close>: fields \<^verbatim>\<open>type\<close>,
  \<^verbatim>\<open>value\<close> and \<^verbatim>\<open>subParameters\<close> (a missing \<^verbatim>\<open>subParameters\<close> is the
  empty list: \<^verbatim>\<open>for ... in\<close> over \<^verbatim>\<open>undefined\<close> or \<^verbatim>\<open>null\<close> runs no iteration).\<close>

datatype parameter =
  Parameter (ptype: nat) (pvalue: buffer) (subParameters: "parameter list")

text \<open>An \<^verbatim>\<open>LLRPMessage\<close>: \<^verbatim>\<open>message.type.value\<close> and \<^verbatim>\<open>message.getParameter()\<close>.\<close>

datatype message = Message (mtype: nat) (getParameter: buffer)

text \<open>The object published with \<^verbatim>\<open>didSeeTag\<close>; \<open>None\<close> is \<^verbatim>\<open>null\<close>.\<close>

datatype tag = Tag (tagID: "string option") (tagSeenCount: nat)

datatype error = TypeError | RangeError

datatype logline =
  Log_Undefined_data
| Log_Receiving message
| Log_RO_ACCESS_REPORT
| Log_ID tag

datatype event =
  Write buffer
| Emit_didSeeTag tag
| Console_log logline
| Assign_isStartROSpecSent bool
| Assign_isReaderConfigSet bool
| Call_decode_message buffer
| Call_decode_parameter buffer

datatype task =
  Tick_handleROAccessReport message
| Tick_emit tag

text \<open>
  The modules that \<^verbatim>\<open>LLRPMain.js\<close> requires are not part of the embedded file, so
  they are a parameter of every definition: the message type codes of
  \<^verbatim>\<open>LLRPMessagesConstants.js\<close>, the parameter type codes of
  \<^verbatim>\<open>LLRPParametersConstants.js\<close>, and the two functions of \<^verbatim>\<open>decode.js\<close>.
  \<^verbatim>\<open>decode.message\<close> yields the messages that the loop of \<^verbatim>\<open>onData\<close> visits (an
  \<^verbatim>\<open>undefined\<close> result is visited as the empty list). \<^verbatim>\<open>decode.parameter\<close> may
  yield a falsy result, which \<^verbatim>\<open>handleROAccessReport\<close> tests for: \<open>None\<close>.
\<close>

record modules =
  READER_EVENT_NOTIFICATION :: nat
  SET_READER_CONFIG_RESPONSE :: nat
  ADD_ROSPEC_RESPONSE :: nat
  ENABLE_ROSPEC_RESPONSE :: nat
  START_ROSPEC_RESPONSE :: nat
  RO_ACCESS_REPORT :: nat
  KEEPALIVE :: nat
  ReaderEventNotificationData :: nat
  ROSpecEvent :: nat
  TagReportData :: nat
  EPC96 :: nat
  TagSeenCount :: nat
  decode_message :: "buffer \<Rightarrow> message list"
  decode_parameter :: "buffer \<Rightarrow> parameter list option"

text \<open>The argument of the constructor; \<open>None\<close> is a property that is not set.\<close>

record config =
  config_ipaddress :: "string option"
  config_port :: "nat option"
  config_log :: "bool option"
  config_isReaderConfigSet :: "bool option"
  config_isStartROSpecSent :: "bool option"

record session =
  ipaddress :: string
  port :: nat
  log :: bool
  isReaderConfigSet :: bool
  isStartROSpecSent :: bool
  trace :: "event list"
  tickQueue :: "task list"

text \<open>A handler returns the session, or the exception it threw together with the
  session as it was when the exception was thrown.\<close>

type_synonym result = "(error \<times> session) + session"

definition final :: "result \<Rightarrow> session" where
  "final r = (case r of Inl (e, s) \<Rightarrow> s | Inr s \<Rightarrow> s)"

subsection \<open>The message buffers\<close>

definition bSetReaderConfig :: buffer where
  "bSetReaderConfig =
    [0x04, 0x03, 0x00, 0x00, 0x00, 0x10, 0x00, 0x00, 0x00, 0x00, 0x00, 0x00, 0xE2, 0x00,
     0x05, 0x80]"

definition bEnableEventsAndReport :: buffer where
  "bEnableEventsAndReport =
    [0x04, 0x40, 0x00, 0x00, 0x00, 0x0A, 0x00, 0x00, 0x00, 0x00]"

definition bAddRoSpec :: buffer where
  "bAddRoSpec =
    [0x04, 0x14, 0x00, 0x00, 0x00, 0x5D, 0x00, 0x00, 0x00, 0x00, 0x00, 0xB1, 0x00, 0x53,
     0x00, 0x00, 0x00, 0x01, 0x00, 0x00, 0x00, 0xB2, 0x00, 0x12, 0x00, 0xB3, 0x00, 0x05,
     0x00, 0x00, 0xB6, 0x00, 0x09, 0x00, 0x00, 0x00, 0x00, 0x00, 0x00, 0xB7, 0x00, 0x18,
     0x00, 0x01, 0x00, 0x00, 0x00, 0xB8, 0x00, 0x09, 0x01, 0x00, 0x00, 0x03, 0xE8, 0x00,
     0xBA, 0x00, 0x07, 0x00, 0x01, 0x01, 0x00, 0xED, 0x00, 0x1F, 0x01, 0x00, 0x00, 0x00,
     0xEE, 0x00, 0x0B, 0xFF, 0xC0, 0x01, 0x5C, 0x00, 0x05, 0xC0, 0x03, 0xFF, 0x00, 0x0D,
     0x00, 0x00, 0x67, 0xBA, 0x00, 0x00, 0x00, 0x8E, 0x01]"

definition bEnableRoSpec :: buffer where
  "bEnableRoSpec =
    [0x04, 0x18, 0x00, 0x00, 0x00, 0x0E, 0x00, 0x00, 0x00, 0x00, 0x00, 0x00, 0x00, 0x01]"

definition bStartRoSpec :: buffer where
  "bStartRoSpec =
    [0x04, 0x16, 0x00, 0x00, 0x00, 0x0E, 0x00, 0x00, 0x00, 0x00, 0x00, 0x00, 0x00, 0x01]"

definition bKeepaliveAck :: buffer where
  "bKeepaliveAck =
    [0x04, 0x48, 0x00, 0x00, 0x00, 0x0A, 0x00, 0x00, 0x00, 0x00]"

subsection \<open>Buffer methods of the platform\<close>

text \<open>\<^verbatim>\<open>buf.readUInt8(offset)\<close> and \<^verbatim>\<open>buf.readUInt16BE(offset)\<close> throw a
  \<^verbatim>\<open>RangeError\<close> when the read leaves the buffer.\<close>

definition readUInt8 :: "buffer \<Rightarrow> nat \<Rightarrow> error + nat" where
  "readUInt8 buf offset =
     (if offset + 1 \<le> length buf then Inr (unat (buf ! offset)) else Inl RangeError)"

definition readUInt16BE :: "buffer \<Rightarrow> nat \<Rightarrow> error + nat" where
  "readUInt16BE buf offset =
     (if offset + 2 \<le> length buf
      then Inr (256 * unat (buf ! offset) + unat (buf ! (offset + 1)))
      else Inl RangeError)"

text \<open>\<^verbatim>\<open>buf.toString('hex')\<close>: two lowercase hexadecimal digits for each byte.\<close>

definition hexDigit :: "nat \<Rightarrow> char" where
  "hexDigit n = ''0123456789abcdef'' ! n"

definition toString_hex :: "buffer \<Rightarrow> string" where
  "toString_hex buf =
     concat (map (\<lambda>b. [hexDigit (unat b div 16), hexDigit (unat b mod 16)]) buf)"

text \<open>The truth value of \<^verbatim>\<open>tag.tagID\<close> in a condition: \<^verbatim>\<open>null\<close> and the empty
  string are falsy, every other string is truthy.\<close>

definition truthy :: "string option \<Rightarrow> bool" where
  "truthy v = (case v of None \<Rightarrow> False | Some str \<Rightarrow> str \<noteq> [])"

subsection \<open>The constructor\<close>

text \<open>\<^verbatim>\<open>a || b\<close> is \<^verbatim>\<open>b\<close> when \<^verbatim>\<open>a\<close> is falsy: a property that is not set, the
  empty string, the number 0 and \<^verbatim>\<open>false\<close>.\<close>

definition llrpMain :: "'a config_scheme \<Rightarrow> session" where
  "llrpMain config =
     \<lparr> ipaddress = (case config_ipaddress config of
                      None \<Rightarrow> ''192.168.0.30''
                    | Some a \<Rightarrow> if a = [] then ''192.168.0.30'' else a),
       port = (case config_port config of
                 None \<Rightarrow> 5084
               | Some p \<Rightarrow> if p = 0 then 5084 else p),
       log = (case config_log config of None \<Rightarrow> False | Some b \<Rightarrow> b),
       isReaderConfigSet =
         (case config_isReaderConfigSet config of None \<Rightarrow> False | Some b \<Rightarrow> b),
       isStartROSpecSent =
         (case config_isStartROSpecSent config of None \<Rightarrow> False | Some b \<Rightarrow> b),
       trace = [],
       tickQueue = [] \<rparr>"

subsection \<open>Primitive effects\<close>

definition record_event :: "event \<Rightarrow> session \<Rightarrow> session" where
  "record_event e s = s\<lparr>trace := trace s @ [e]\<rparr>"

definition client_write :: "buffer \<Rightarrow> session \<Rightarrow> session" where
  "client_write buf s = record_event (Write buf) s"

text \<open>\<^verbatim>\<open>if (log) { console.log(...) }\<close>\<close>

definition console_log :: "logline \<Rightarrow> session \<Rightarrow> session" where
  "console_log l s = (if log s then record_event (Console_log l) s else s)"

definition process_nextTick :: "task \<Rightarrow> session \<Rightarrow> session" where
  "process_nextTick t s = s\<lparr>tickQueue := tickQueue s @ [t]\<rparr>"

subsection \<open>Helper methods\<close>

definition resetIsStartROSpecSent :: "session \<Rightarrow> session" where
  "resetIsStartROSpecSent s =
     record_event (Assign_isStartROSpecSent False) (s\<lparr>isStartROSpecSent := False\<rparr>)"

definition sendStartROSpec :: "session \<Rightarrow> session" where
  "sendStartROSpec s =
     (if \<not> isStartROSpecSent s
      then client_write bStartRoSpec
             (record_event (Assign_isStartROSpecSent True) (s\<lparr>isStartROSpecSent := True\<rparr>))
      else s)"

text \<open>\<^verbatim>\<open>mapSubParameters\<close>: the loop assigns \<^verbatim>\<open>properties[type] = value\<close> for each
  sub-parameter in turn.\<close>

fun mapSubParameters_loop ::
  "(nat \<rightharpoonup> buffer) \<Rightarrow> parameter list \<Rightarrow> (nat \<rightharpoonup> buffer)" where
  "mapSubParameters_loop properties [] = properties"
| "mapSubParameters_loop properties (sp # sps) =
     mapSubParameters_loop (properties(ptype sp \<mapsto> pvalue sp)) sps"

definition mapSubParameters :: "parameter \<Rightarrow> (nat \<rightharpoonup> buffer)" where
  "mapSubParameters params = mapSubParameters_loop Map.empty (subParameters params)"

subsection \<open>Reader event notifications\<close>

text \<open>The \<^verbatim>\<open>for\<close> loop of \<^verbatim>\<open>handleReaderNotification\<close>.\<close>

fun handleReaderNotification_loop ::
  "modules \<Rightarrow> parameter list \<Rightarrow> session \<Rightarrow> result" where
  "handleReaderNotification_loop md [] s = Inr s"
| "handleReaderNotification_loop md (p # ps) s =
     (if ptype p = ReaderEventNotificationData md then
        (case mapSubParameters p (ROSpecEvent md) of
           None \<Rightarrow> handleReaderNotification_loop md ps s
         | Some v \<Rightarrow>
             (case readUInt8 v 0 of
                Inl e \<Rightarrow> Inl (e, s)
              | Inr n \<Rightarrow>
                  if n = 1
                  then handleReaderNotification_loop md ps (resetIsStartROSpecSent s)
                  else handleReaderNotification_loop md ps s))
      else handleReaderNotification_loop md ps s)"

text \<open>Reading \<^verbatim>\<open>.length\<close> of an \<^verbatim>\<open>undefined\<close> decoder result throws a
  \<^verbatim>\<open>TypeError\<close>.\<close>

definition handleReaderNotification :: "modules \<Rightarrow> message \<Rightarrow> session \<Rightarrow> result" where
  "handleReaderNotification md msg s =
     (let s0 = record_event (Call_decode_parameter (getParameter msg)) s in
      case decode_parameter md (getParameter msg) of
        None \<Rightarrow> Inl (TypeError, s0)
      | Some parametersKeyValue \<Rightarrow>
          (case handleReaderNotification_loop md parametersKeyValue s0 of
             Inl e \<Rightarrow> Inl e
           | Inr s1 \<Rightarrow>
               if \<not> isReaderConfigSet s1
               then Inr (record_event (Assign_isReaderConfigSet True)
                          ((client_write bSetReaderConfig s1)\<lparr>isReaderConfigSet := True\<rparr>))
               else Inr (sendStartROSpec s1)))"

subsection \<open>Tag reports\<close>

text \<open>Lines 225 to 236: the object \<^verbatim>\<open>tag\<close> built from the flattened
  sub-parameters.\<close>

definition buildTag :: "modules \<Rightarrow> (nat \<rightharpoonup> buffer) \<Rightarrow> error + tag" where
  "buildTag md subs =
     (let tid = (case subs (EPC96 md) of
                   None \<Rightarrow> None
                 | Some v \<Rightarrow> Some (toString_hex v))
      in case subs (TagSeenCount md) of
           None \<Rightarrow> Inr (Tag tid 0)
         | Some v \<Rightarrow>
             (case readUInt16BE v 0 of
                Inl e \<Rightarrow> Inl e
              | Inr n \<Rightarrow> Inr (Tag tid n)))"

text \<open>The callback of \<^verbatim>\<open>parametersKeyValue.forEach\<close>.\<close>

definition forEach_callback :: "modules \<Rightarrow> parameter \<Rightarrow> session \<Rightarrow> result" where
  "forEach_callback md decodedParameters s =
     (if ptype decodedParameters = TagReportData md then
        (case buildTag md (mapSubParameters decodedParameters) of
           Inl e \<Rightarrow> Inl (e, s)
         | Inr t \<Rightarrow>
             (let s1 = console_log (Log_ID t) s in
              if truthy (tagID t) then Inr (process_nextTick (Tick_emit t) s1)
              else Inr s1))
      else Inr s)"

fun forEach :: "modules \<Rightarrow> parameter list \<Rightarrow> session \<Rightarrow> result" where
  "forEach md [] s = Inr s"
| "forEach md (p # ps) s =
     (case forEach_callback md p s of
        Inl e \<Rightarrow> Inl e
      | Inr s1 \<Rightarrow> forEach md ps s1)"

text \<open>\<^verbatim>\<open>handleROAccessReport\<close> only schedules its body.\<close>

definition handleROAccessReport :: "message \<Rightarrow> session \<Rightarrow> session" where
  "handleROAccessReport msg s = process_nextTick (Tick_handleROAccessReport msg) s"

text \<open>The body, run from the tick queue.\<close>

definition handleROAccessReport_tick :: "modules \<Rightarrow> message \<Rightarrow> session \<Rightarrow> result" where
  "handleROAccessReport_tick md msg s =
     (let s1 = resetIsStartROSpecSent s;
          s2 = console_log Log_RO_ACCESS_REPORT s1;
          s3 = record_event (Call_decode_parameter (getParameter msg)) s2
      in case decode_parameter md (getParameter msg) of
           None \<Rightarrow> Inr s3
         | Some parametersKeyValue \<Rightarrow> forEach md parametersKeyValue s3)"

subsection \<open>The data callback\<close>

text \<open>The \<^verbatim>\<open>switch\<close> on \<^verbatim>\<open>message.type.value\<close>: the first case that matches.\<close>

definition dispatch :: "modules \<Rightarrow> message \<Rightarrow> session \<Rightarrow> result" where
  "dispatch md msg s =
     (if mtype msg = READER_EVENT_NOTIFICATION md then handleReaderNotification md msg s
      else if mtype msg = SET_READER_CONFIG_RESPONSE md then Inr (client_write bAddRoSpec s)
      else if mtype msg = ADD_ROSPEC_RESPONSE md then Inr (client_write bEnableRoSpec s)
      else if mtype msg = ENABLE_ROSPEC_RESPONSE md then Inr (sendStartROSpec s)
      else if mtype msg = START_ROSPEC_RESPONSE md
        then Inr (client_write bEnableEventsAndReport s)
      else if mtype msg = RO_ACCESS_REPORT md then Inr (handleROAccessReport msg s)
      else if mtype msg = KEEPALIVE md then Inr (client_write bKeepaliveAck s)
      else Inr s)"

text \<open>The loop over the decoded messages.\<close>

fun messages_loop :: "modules \<Rightarrow> message list \<Rightarrow> session \<Rightarrow> result" where
  "messages_loop md [] s = Inr s"
| "messages_loop md (msg # msgs) s =
     (case dispatch md msg (console_log (Log_Receiving msg) s) of
        Inl e \<Rightarrow> Inl e
      | Inr s1 \<Rightarrow> messages_loop md msgs s1)"

text \<open>\<^verbatim>\<open>onData\<close>; the chunk \<open>None\<close> is \<^verbatim>\<open>null\<close> or \<^verbatim>\<open>undefined\<close>.\<close>

definition onData :: "modules \<Rightarrow> buffer option \<Rightarrow> session \<Rightarrow> result" where
  "onData md data s =
     (case data of
        None \<Rightarrow> Inr (console_log Log_Undefined_data s)
      | Some d \<Rightarrow>
          messages_loop md (decode_message md d) (record_event (Call_decode_message d) s))"

subsection \<open>The tick queue\<close>

fun runTask :: "modules \<Rightarrow> task \<Rightarrow> session \<Rightarrow> result" where
  "runTask md (Tick_handleROAccessReport msg) s = handleROAccessReport_tick md msg s"
| "runTask md (Tick_emit t) s = Inr (record_event (Emit_didSeeTag t) s)"

definition taskWeight :: "modules \<Rightarrow> task \<Rightarrow> nat" where
  "taskWeight md t =
     (case t of
        Tick_emit _ \<Rightarrow> 1
      | Tick_handleROAccessReport msg \<Rightarrow>
          (case decode_parameter md (getParameter msg) of
             None \<Rightarrow> 2
           | Some ps \<Rightarrow> 2 + length ps))"

definition queueWeight :: "modules \<Rightarrow> session \<Rightarrow> nat" where
  "queueWeight md s = sum_list (map (taskWeight md) (tickQueue s))"

lemma tickQueue_record_event [simp]: "tickQueue (record_event e s) = tickQueue s"
  by (simp add: record_event_def)

lemma tickQueue_console_log [simp]: "tickQueue (console_log l s) = tickQueue s"
  by (simp add: console_log_def)

lemma tickQueue_resetIsStartROSpecSent [simp]:
  "tickQueue (resetIsStartROSpecSent s) = tickQueue s"
  by (simp add: resetIsStartROSpecSent_def)

lemma queueWeight_forEach_callback:
  "forEach_callback md p s = Inr s' \<Longrightarrow> queueWeight md s' \<le> queueWeight md s + 1"
  by (auto simp: forEach_callback_def queueWeight_def process_nextTick_def taskWeight_def
      Let_def split: if_splits sum.splits)

lemma queueWeight_forEach:
  "forEach md ps s = Inr s' \<Longrightarrow> queueWeight md s' \<le> queueWeight md s + length ps"
proof (induction ps arbitrary: s)
  case Nil
  then show ?case by simp
next
  case (Cons p ps)
  from Cons.prems obtain s1 where
    a: "forEach_callback md p s = Inr s1" and b: "forEach md ps s1 = Inr s'"
    by (auto split: sum.splits)
  from queueWeight_forEach_callback [OF a] Cons.IH [OF b] show ?case by simp
qed

lemma queueWeight_runTask:
  "runTask md t s = Inr s' \<Longrightarrow> queueWeight md s' < queueWeight md s + taskWeight md t"
proof (cases t)
  case (Tick_handleROAccessReport msg)
  assume r: "runTask md t s = Inr s'"
  show ?thesis
  proof (cases "decode_parameter md (getParameter msg)")
    case None
    with r Tick_handleROAccessReport show ?thesis
      by (auto simp: handleROAccessReport_tick_def Let_def queueWeight_def taskWeight_def)
  next
    case (Some ps)
    with r Tick_handleROAccessReport have
      "forEach md ps (record_event (Call_decode_parameter (getParameter msg))
         (console_log Log_RO_ACCESS_REPORT (resetIsStartROSpecSent s))) = Inr s'"
      by (simp add: handleROAccessReport_tick_def Let_def)
    from queueWeight_forEach [OF this] Some Tick_handleROAccessReport show ?thesis
      by (simp add: queueWeight_def taskWeight_def)
  qed
next
  case (Tick_emit x)
  assume "runTask md t s = Inr s'"
  with Tick_emit show ?thesis
    by (auto simp: queueWeight_def taskWeight_def)
qed

text \<open>Node runs the queued callbacks, oldest first, until the queue is empty; a
  callback may queue further callbacks.\<close>

function runTicks :: "modules \<Rightarrow> session \<Rightarrow> result" where
  "runTicks md s =
     (case tickQueue s of
        [] \<Rightarrow> Inr s
      | t # q \<Rightarrow>
          (case runTask md t (s\<lparr>tickQueue := q\<rparr>) of
             Inl e \<Rightarrow> Inl e
           | Inr s1 \<Rightarrow> runTicks md s1))"
  by pat_completeness auto
termination
proof (relation "measure (\<lambda>(md, s). queueWeight md s)")
  show "wf (measure (\<lambda>(md, s). queueWeight md s))"
    by simp
next
  fix md :: modules and s :: session and t q s1
  assume q: "tickQueue s = t # q" and r: "runTask md t (s\<lparr>tickQueue := q\<rparr>) = Inr s1"
  from queueWeight_runTask [OF r] q
  show "((md, s1), (md, s)) \<in> measure (\<lambda>(md, s). queueWeight md s)"
    by (simp add: queueWeight_def)
qed

declare runTicks.simps [simp del]

text \<open>One transport delivery: the data callback, then the tick queue. An exception
  that leaves the callback is not caught, and the queue is not run.\<close>

definition deliver :: "modules \<Rightarrow> buffer option \<Rightarrow> session \<Rightarrow> result" where
  "deliver md data s =
     (case onData md data s of
        Inl e \<Rightarrow> Inl e
      | Inr s1 \<Rightarrow> runTicks md s1)"

fun deliveries :: "modules \<Rightarrow> buffer option list \<Rightarrow> session \<Rightarrow> result" where
  "deliveries md [] s = Inr s"
| "deliveries md (d # ds) s =
     (case deliver md d s of
        Inl e \<Rightarrow> Inl e
      | Inr s1 \<Rightarrow> deliveries md ds s1)"

section \<open>Notions used in the statements\<close>

subsection \<open>Reading a trace\<close>

text \<open>The events that a session has appended to the trace of an earlier session.\<close>

definition new_events :: "session \<Rightarrow> session \<Rightarrow> event list" where
  "new_events s s' = drop (length (trace s)) (trace s')"

text \<open>The buffers written to the socket, in order.\<close>

definition writes :: "event list \<Rightarrow> buffer list" where
  "writes es = concat (map (\<lambda>e. case e of Write buf \<Rightarrow> [buf] | _ \<Rightarrow> []) es)"

text \<open>The value of \<^verbatim>\<open>isStartROSpecSent\<close> after the assignments of a trace, from the
  initial value \<open>f\<close>.\<close>

fun startFlag :: "bool \<Rightarrow> event list \<Rightarrow> bool" where
  "startFlag f [] = f"
| "startFlag f (Assign_isStartROSpecSent b # es) = startFlag b es"
| "startFlag f (e # es) = startFlag f es"

text \<open>Every write of the start-read-spec command comes directly after the assignment of
  \<open>True\<close> to \<^verbatim>\<open>isStartROSpecSent\<close>, made when the flag was \<open>False\<close>.\<close>

definition start_guarded :: "bool \<Rightarrow> event list \<Rightarrow> bool" where
  "start_guarded f0 T =
     (\<forall>pre post. T = pre @ Write bStartRoSpec # post \<longrightarrow>
        (\<exists>pre'. pre = pre' @ [Assign_isStartROSpecSent True] \<and> \<not> startFlag f0 pre'))"

subsection \<open>The end of the read-spec cycle\<close>

text \<open>An event-notification parameter signals the end of the cycle when its flattened
  sub-parameters hold a \<^verbatim>\<open>ROSpecEvent\<close> whose first value byte is 1.\<close>

definition signals_cycle_end :: "modules \<Rightarrow> parameter \<Rightarrow> bool" where
  "signals_cycle_end md p =
     (ptype p = ReaderEventNotificationData md \<and>
      (case mapSubParameters p (ROSpecEvent md) of
         None \<Rightarrow> False
       | Some v \<Rightarrow> readUInt8 v 0 = Inr 1))"

definition cycle_ended :: "modules \<Rightarrow> parameter list \<Rightarrow> bool" where
  "cycle_ended md ps = list_ex (signals_cycle_end md) ps"

subsection \<open>Actions performed at dispatch\<close>

text \<open>The messages for which the \<^verbatim>\<open>switch\<close> selects the case
  \<^verbatim>\<open>RO_ACCESS_REPORT\<close>.\<close>

definition is_report :: "modules \<Rightarrow> message \<Rightarrow> bool" where
  "is_report md msg =
     (mtype msg \<noteq> READER_EVENT_NOTIFICATION md \<and>
      mtype msg \<noteq> SET_READER_CONFIG_RESPONSE md \<and>
      mtype msg \<noteq> ADD_ROSPEC_RESPONSE md \<and>
      mtype msg \<noteq> ENABLE_ROSPEC_RESPONSE md \<and>
      mtype msg \<noteq> START_ROSPEC_RESPONSE md \<and>
      mtype msg = RO_ACCESS_REPORT md)"

text \<open>The reading of message-batch ordering in which the whole action of a message,
  for a tag report the body of \<^verbatim>\<open>handleROAccessReport\<close>, is performed when the
  message is dispatched, before the next message.\<close>

definition action :: "modules \<Rightarrow> message \<Rightarrow> session \<Rightarrow> result" where
  "action md msg s =
     (if is_report md msg then handleROAccessReport_tick md msg s else dispatch md msg s)"

fun actions_in_order :: "modules \<Rightarrow> message list \<Rightarrow> session \<Rightarrow> result" where
  "actions_in_order md [] s = Inr s"
| "actions_in_order md (msg # msgs) s =
     (case action md msg (console_log (Log_Receiving msg) s) of
        Inl e \<Rightarrow> Inl e
      | Inr s1 \<Rightarrow> actions_in_order md msgs s1)"

definition deliver_in_order :: "modules \<Rightarrow> buffer \<Rightarrow> session \<Rightarrow> result" where
  "deliver_in_order md d s =
     (case actions_in_order md (decode_message md d)
             (record_event (Call_decode_message d) s) of
        Inl e \<Rightarrow> Inl e
      | Inr s1 \<Rightarrow> runTicks md s1)"

text \<open>The deferred reading: the bodies of \<^verbatim>\<open>handleROAccessReport\<close> for the given tag
  reports, run one after the other in the order of the list, each when its callback has
  been taken from the head of the tick queue. A body that throws ends the run.\<close>

fun report_bodies :: "modules \<Rightarrow> message list \<Rightarrow> session \<Rightarrow> result" where
  "report_bodies md [] s = Inr s"
| "report_bodies md (msg # msgs) s =
     (case handleROAccessReport_tick md msg (s\<lparr>tickQueue := tl (tickQueue s)\<rparr>) of
        Inl e \<Rightarrow> Inl e
      | Inr s1 \<Rightarrow> report_bodies md msgs s1)"

text \<open>The tags whose publication is queued, oldest first.\<close>

definition pending_tags :: "task list \<Rightarrow> tag list" where
  "pending_tags q = concat (map (\<lambda>t. case t of Tick_emit tg \<Rightarrow> [tg] | _ \<Rightarrow> []) q)"

text \<open>The queued publications are emitted in order and the queue is empty.\<close>

definition publish_pending :: "session \<Rightarrow> session" where
  "publish_pending s =
     s\<lparr>trace := trace s @ map Emit_didSeeTag (pending_tags (tickQueue s)),
       tickQueue := []\<rparr>"

text \<open>One delivery, deferred: every message of the batch is dispatched; then the bodies
  of the batch's tag reports run in message order; then the tags they queued are
  published. An exception in a dispatch or in a body ends the delivery there.\<close>

definition deliver_deferred :: "modules \<Rightarrow> buffer \<Rightarrow> session \<Rightarrow> result" where
  "deliver_deferred md d s =
     (case onData md (Some d) s of
        Inl e \<Rightarrow> Inl e
      | Inr s1 \<Rightarrow>
          (case report_bodies md (filter (is_report md) (decode_message md d)) s1 of
             Inl e \<Rightarrow> Inl e
           | Inr s2 \<Rightarrow> Inr (publish_pending s2)))"

subsection \<open>Primitive steps and invariants\<close>

text \<open>The events that touch neither flag and are not one of the two guarded commands.\<close>

definition neutral :: "event \<Rightarrow> bool" where
  "neutral e =
     (case e of
        Write buf \<Rightarrow> buf \<noteq> bStartRoSpec \<and> buf \<noteq> bSetReaderConfig
      | Assign_isStartROSpecSent b \<Rightarrow> False
      | Assign_isReaderConfigSet b \<Rightarrow> False
      | _ \<Rightarrow> True)"

text \<open>Every handler is a sequence of these steps: a neutral event, the reset of the
  start flag, the guarded start command, the guarded configure command, and a change of
  the tick queue.\<close>

inductive step :: "session \<Rightarrow> session \<Rightarrow> bool" where
  step_event: "neutral e \<Longrightarrow> step s (record_event e s)"
| step_reset: "step s (resetIsStartROSpecSent s)"
| step_start: "\<not> isStartROSpecSent s \<Longrightarrow> step s (sendStartROSpec s)"
| step_config: "\<not> isReaderConfigSet s \<Longrightarrow>
    step s (record_event (Assign_isReaderConfigSet True)
             ((client_write bSetReaderConfig s)\<lparr>isReaderConfigSet := True\<rparr>))"
| step_queue: "step s (s\<lparr>tickQueue := q\<rparr>)"

abbreviation steps :: "session \<Rightarrow> session \<Rightarrow> bool" where
  "steps \<equiv> step\<^sup>*\<^sup>*"

definition start_inv :: "bool \<Rightarrow> session \<Rightarrow> bool" where
  "start_inv f0 s =
     (isStartROSpecSent s = startFlag f0 (trace s) \<and> start_guarded f0 (trace s))"

definition config_inv :: "session \<Rightarrow> bool" where
  "config_inv s =
     (Assign_isReaderConfigSet False \<notin> set (trace s) \<and>
      count_list (trace s) (Assign_isReaderConfigSet True)
        \<le> (if isReaderConfigSet s then 1 else 0) \<and>
      count_list (trace s) (Write bSetReaderConfig)
        \<le> (if isReaderConfigSet s then 1 else 0))"

section \<open>Concrete instances\<close>

text \<open>The type codes are those that the LLRP standard assigns to the seven messages and
  the five parameters; the decoder functions are given. The instance is used for
  concrete runs.\<close>

definition llrp_modules ::
  "(buffer \<Rightarrow> message list) \<Rightarrow> (buffer \<Rightarrow> parameter list option) \<Rightarrow> modules" where
  "llrp_modules dm dp =
     \<lparr> READER_EVENT_NOTIFICATION = 63, SET_READER_CONFIG_RESPONSE = 13,
       ADD_ROSPEC_RESPONSE = 30, ENABLE_ROSPEC_RESPONSE = 34, START_ROSPEC_RESPONSE = 32,
       RO_ACCESS_REPORT = 61, KEEPALIVE = 62, ReaderEventNotificationData = 246,
       ROSpecEvent = 249, TagReportData = 240, EPC96 = 13, TagSeenCount = 8,
       decode_message = dm, decode_parameter = dp \<rparr>"

text \<open>Decoder functions for concrete runs: six chunks that stand for batches of
  messages, the parameter block of a reader event that reports the end of the read-spec
  cycle, the parameter block of a reader event whose \<^verbatim>\<open>ROSpecEvent\<close> has no value
  byte, and the parameter block of a tag report with one tag.\<close>

definition stub_decode_message :: "buffer \<Rightarrow> message list" where
  "stub_decode_message d =
     (if d = [1] then [Message 34 [], Message 61 []]
      else if d = [2] then [Message 34 []]
      else if d = [3] then [Message 63 [9]]
      else if d = [4] then [Message 61 [], Message 34 []]
      else if d = [5] then [Message 61 [7]]
      else if d = [6] then [Message 61 [7], Message 34 [], Message 61 []]
      else [])"

definition stub_tag_report :: parameter where
  "stub_tag_report =
     Parameter 240 []
       [Parameter 13 [0xAA, 0xBB, 0xCC, 0xDD, 0xEE, 0xFF] [], Parameter 8 [0x00, 0x02] []]"

definition stub_decode_parameter :: "buffer \<Rightarrow> parameter list option" where
  "stub_decode_parameter b =
     (if b = [9] then Some [Parameter 246 [] [Parameter 249 [1, 0, 0, 0, 1] []]]
      else if b = [8] then Some [Parameter 246 [] [Parameter 249 [] []]]
      else if b = [7] then Some [stub_tag_report]
      else None)"

definition stub_modules :: modules where
  "stub_modules = llrp_modules stub_decode_message stub_decode_parameter"

definition default_config :: config where
  "default_config =
     \<lparr> config_ipaddress = None, config_port = None, config_log = None,
       config_isReaderConfigSet = None, config_isStartROSpecSent = None \<rparr>"

definition preset_config :: config where
  "preset_config = default_config\<lparr>config_isReaderConfigSet := Some True\<rparr>"

definition started_config :: config where
  "started_config =
     default_config\<lparr>config_isReaderConfigSet := Some True,
       config_isStartROSpecSent := Some True\<rparr>"

section \<open>The parameter flattener\<close>

lemma mapSubParameters_loop_append:
  "mapSubParameters_loop m (xs @ ys) =
     mapSubParameters_loop (mapSubParameters_loop m xs) ys"
  by (induction xs arbitrary: m) simp_all

lemma mapSubParameters_loop_other:
  "\<forall>q\<in>set xs. ptype q \<noteq> k \<Longrightarrow> mapSubParameters_loop m xs k = m k"
  by (induction xs arbitrary: m) simp_all

lemma dom_mapSubParameters_loop:
  "dom (mapSubParameters_loop m xs) = dom m \<union> ptype ` set xs"
  by (induction xs arbitrary: m) auto

text \<open>
  Claim C8 (flattener, last write wins). The keys of the flattened map are exactly the
  type codes that occur among the sub-parameters, and a type code is sent to the value
  bytes of the last sub-parameter that bears it: whenever the sub-parameter sequence
  splits into \<open>pre @ sp # post\<close> with no sub-parameter of \<open>post\<close> bearing the type
  code of \<open>sp\<close>, the map sends that type code to the value of \<open>sp\<close>.
\<close>

theorem mapSubParameters_last_write_wins:
  "dom (mapSubParameters p) = ptype ` set (subParameters p) \<and>
   (\<forall>pre sp post.
      subParameters p = pre @ sp # post \<and> (\<forall>q\<in>set post. ptype q \<noteq> ptype sp)
      \<longrightarrow> mapSubParameters p (ptype sp) = Some (pvalue sp))"
  by (simp add: mapSubParameters_def dom_mapSubParameters_loop
      mapSubParameters_loop_append mapSubParameters_loop_other)

theorem mapSubParameters_last_write_wins_witness:
  "mapSubParameters
     (Parameter 240 [] [Parameter 13 [1] [], Parameter 8 [0, 2] [], Parameter 13 [2] []])
     13 = Some [2] \<and>
   dom (mapSubParameters
     (Parameter 240 [] [Parameter 13 [1] [], Parameter 8 [0, 2] [], Parameter 13 [2] []]))
     = {13, 8}"
  using mapSubParameters_last_write_wins
    [of "Parameter 240 [] [Parameter 13 [1] [], Parameter 8 [0, 2] [], Parameter 13 [2] []]",
     THEN conjunct2, rule_format,
     of "[Parameter 13 [1] [], Parameter 8 [0, 2] []]" "Parameter 13 [2] []" "[]"]
    mapSubParameters_last_write_wins
    [of "Parameter 240 [] [Parameter 13 [1] [], Parameter 8 [0, 2] [], Parameter 13 [2] []]",
     THEN conjunct1]
  by auto

section \<open>Runs as sequences of primitive steps\<close>

lemma steps_one: "step s s' \<Longrightarrow> steps s s'"
  by (rule r_into_rtranclp)

lemma steps_trans: "steps a b \<Longrightarrow> steps b c \<Longrightarrow> steps a c"
  by (rule rtranclp_trans)

lemma final_simps [simp]: "final (Inr s) = s" "final (Inl (e, s)) = s"
  by (simp_all add: final_def)

lemma steps_console_log: "steps s (console_log l s)"
  by (auto simp: console_log_def neutral_def intro!: r_into_rtranclp step_event)

lemma steps_sendStartROSpec: "steps s (sendStartROSpec s)"
proof (cases "isStartROSpecSent s")
  case True
  then show ?thesis by (simp add: sendStartROSpec_def)
next
  case False
  then show ?thesis by (rule step_start [THEN steps_one])
qed

lemma steps_process_nextTick: "steps s (process_nextTick t s)"
  unfolding process_nextTick_def by (rule step_queue [THEN steps_one])

lemma steps_handleReaderNotification_loop:
  "steps s (final (handleReaderNotification_loop md ps s))"
proof (induction ps arbitrary: s)
  case Nil
  show ?case by simp
next
  case (Cons p ps)
  have "steps s (resetIsStartROSpecSent s)"
    by (rule step_reset [THEN steps_one])
  from this Cons.IH [of "resetIsStartROSpecSent s"]
  have "steps s (final (handleReaderNotification_loop md ps (resetIsStartROSpecSent s)))"
    by (rule steps_trans)
  with Cons.IH [of s] show ?case
    by (simp split: option.split sum.split)
qed

lemma steps_final_bind:
  assumes "steps s (final r)" and "\<And>s1. r = Inr s1 \<Longrightarrow> steps s1 (final (k s1))"
  shows "steps s (final (case r of Inl e \<Rightarrow> Inl e | Inr s1 \<Rightarrow> k s1))"
proof (cases r)
  case (Inl e)
  with assms(1) show ?thesis by simp
next
  case (Inr s1)
  with assms(1) have "steps s s1" by simp
  from this assms(2) [OF Inr] have "steps s (final (k s1))" by (rule steps_trans)
  with Inr show ?thesis by simp
qed

lemma bAddRoSpec_neutral: "neutral (Write bAddRoSpec)"
  by (simp add: neutral_def bAddRoSpec_def bStartRoSpec_def bSetReaderConfig_def)

lemma bEnableRoSpec_neutral: "neutral (Write bEnableRoSpec)"
  by (simp add: neutral_def bEnableRoSpec_def bStartRoSpec_def bSetReaderConfig_def)

lemma bEnableEventsAndReport_neutral: "neutral (Write bEnableEventsAndReport)"
  by (simp add: neutral_def bEnableEventsAndReport_def bStartRoSpec_def bSetReaderConfig_def)

lemma bKeepaliveAck_neutral: "neutral (Write bKeepaliveAck)"
  by (simp add: neutral_def bKeepaliveAck_def bStartRoSpec_def bSetReaderConfig_def)

lemma bStartRoSpec_neq_bSetReaderConfig: "bStartRoSpec \<noteq> bSetReaderConfig"
  by (simp add: bStartRoSpec_def bSetReaderConfig_def)

lemma steps_handleReaderNotification:
  "steps s (final (handleReaderNotification md msg s))"
proof -
  let ?s0 = "record_event (Call_decode_parameter (getParameter msg)) s"
  have a: "steps s ?s0"
    by (rule step_event [THEN steps_one]) (simp add: neutral_def)
  show ?thesis
  proof (cases "decode_parameter md (getParameter msg)")
    case None
    with a show ?thesis by (simp add: handleReaderNotification_def)
  next
    case (Some ps)
    have "steps ?s0 (final (case handleReaderNotification_loop md ps ?s0 of
             Inl e \<Rightarrow> Inl e
           | Inr s1 \<Rightarrow>
               if \<not> isReaderConfigSet s1
               then Inr (record_event (Assign_isReaderConfigSet True)
                          ((client_write bSetReaderConfig s1)\<lparr>isReaderConfigSet := True\<rparr>))
               else Inr (sendStartROSpec s1)))"
      by (rule steps_final_bind [OF steps_handleReaderNotification_loop])
        (auto intro: steps_sendStartROSpec step_config [THEN steps_one])
    with a Some show ?thesis
      by (simp add: handleReaderNotification_def Let_def)
  qed
qed

lemma steps_forEach_callback: "steps s (final (forEach_callback md p s))"
proof -
  have "steps s (process_nextTick t (console_log l s))" for t l
    by (rule steps_trans [OF steps_console_log steps_process_nextTick])
  then show ?thesis
    by (simp add: forEach_callback_def Let_def steps_console_log split: sum.split)
qed

lemma steps_forEach: "steps s (final (forEach md ps s))"
proof (induction ps arbitrary: s)
  case Nil
  show ?case by simp
next
  case (Cons p ps)
  show ?case
    unfolding forEach.simps
    by (rule steps_final_bind [OF steps_forEach_callback]) (rule Cons.IH)
qed

lemma steps_handleROAccessReport_tick:
  "steps s (final (handleROAccessReport_tick md msg s))"
proof -
  let ?s1 = "resetIsStartROSpecSent s"
  let ?s2 = "console_log Log_RO_ACCESS_REPORT ?s1"
  let ?s3 = "record_event (Call_decode_parameter (getParameter msg)) ?s2"
  have "steps s ?s1" by (rule step_reset [THEN steps_one])
  also have "steps ?s1 ?s2" by (rule steps_console_log)
  also have "steps ?s2 ?s3"
    by (rule step_event [THEN steps_one]) (simp add: neutral_def)
  finally have a: "steps s ?s3" .
  show ?thesis
  proof (cases "decode_parameter md (getParameter msg)")
    case None
    with a show ?thesis by (simp add: handleROAccessReport_tick_def Let_def)
  next
    case (Some ps)
    from a steps_forEach [of ?s3 md ps] have "steps s (final (forEach md ps ?s3))"
      by (rule steps_trans)
    with Some show ?thesis by (simp add: handleROAccessReport_tick_def Let_def)
  qed
qed

lemma steps_runTask: "steps s (final (runTask md t s))"
proof (cases t)
  case (Tick_handleROAccessReport msg)
  then show ?thesis by (simp add: steps_handleROAccessReport_tick)
next
  case (Tick_emit x)
  then show ?thesis
    by (auto simp: neutral_def intro!: step_event [THEN steps_one])
qed

lemma steps_client_write: "neutral (Write buf) \<Longrightarrow> steps s (client_write buf s)"
  unfolding client_write_def by (rule step_event [THEN steps_one])

lemma steps_dispatch: "steps s (final (dispatch md msg s))"
  by (simp add: dispatch_def steps_handleReaderNotification steps_client_write
      bAddRoSpec_neutral bEnableRoSpec_neutral bEnableEventsAndReport_neutral
      bKeepaliveAck_neutral steps_sendStartROSpec handleROAccessReport_def
      steps_process_nextTick)

lemma steps_messages_loop: "steps s (final (messages_loop md msgs s))"
proof (induction msgs arbitrary: s)
  case Nil
  show ?case by simp
next
  case (Cons msg msgs)
  have "steps s (final (dispatch md msg (console_log (Log_Receiving msg) s)))"
    by (rule steps_trans [OF steps_console_log steps_dispatch])
  then show ?case
    unfolding messages_loop.simps
    by (rule steps_final_bind) (rule Cons.IH)
qed

lemma steps_onData: "steps s (final (onData md data s))"
proof (cases data)
  case None
  then show ?thesis by (simp add: onData_def steps_console_log)
next
  case (Some d)
  have "steps s (record_event (Call_decode_message d) s)"
    by (rule step_event [THEN steps_one]) (simp add: neutral_def)
  from this steps_messages_loop
  have "steps s (final (messages_loop md (decode_message md d)
          (record_event (Call_decode_message d) s)))"
    by (rule steps_trans)
  with Some show ?thesis by (simp add: onData_def)
qed

lemma runTicks_Nil: "tickQueue s = [] \<Longrightarrow> runTicks md s = Inr s"
  by (simp add: runTicks.simps)

lemma runTicks_Cons:
  "tickQueue s = t # q \<Longrightarrow>
   runTicks md s =
     (case runTask md t (s\<lparr>tickQueue := q\<rparr>) of
        Inl e \<Rightarrow> Inl e
      | Inr s1 \<Rightarrow> runTicks md s1)"
  by (simp add: runTicks.simps)

lemma steps_runTicks: "steps s (final (runTicks md s))"
proof (induction md s rule: runTicks.induct)
  case (1 md s)
  show ?case
  proof (cases "tickQueue s")
    case Nil
    then show ?thesis by (simp add: runTicks_Nil)
  next
    case (Cons t q)
    have "steps s (s\<lparr>tickQueue := q\<rparr>)"
      by (rule step_queue [THEN steps_one])
    from this steps_runTask have a: "steps s (final (runTask md t (s\<lparr>tickQueue := q\<rparr>)))"
      by (rule steps_trans)
    show ?thesis
      unfolding runTicks_Cons [OF Cons]
      by (rule steps_final_bind [OF a]) (rule "1.IH" [OF Cons])
  qed
qed

lemma steps_deliver: "steps s (final (deliver md data s))"
  unfolding deliver_def
  by (rule steps_final_bind [OF steps_onData]) (rule steps_runTicks)

lemma steps_deliveries: "steps s (final (deliveries md ds s))"
proof (induction ds arbitrary: s)
  case Nil
  show ?case by simp
next
  case (Cons d ds)
  show ?case
    unfolding deliveries.simps
    by (rule steps_final_bind [OF steps_deliver]) (rule Cons.IH)
qed

section \<open>Start dedup\<close>

lemma startFlag_append: "startFlag f (xs @ ys) = startFlag (startFlag f xs) ys"
proof (induction xs arbitrary: f)
  case Nil
  show ?case by simp
next
  case (Cons e xs)
  then show ?case by (cases e) simp_all
qed

lemma startFlag_snoc:
  "startFlag f (xs @ [e]) =
     (case e of Assign_isStartROSpecSent b \<Rightarrow> b | _ \<Rightarrow> startFlag f xs)"
  by (cases e) (simp_all add: startFlag_append)

lemma startFlag_no_reset:
  "Assign_isStartROSpecSent False \<notin> set es \<Longrightarrow> startFlag True es"
proof (induction es)
  case Nil
  show ?case by simp
next
  case (Cons e es)
  then show ?case by (cases e) auto
qed

lemma snoc_eq_split:
  "T @ [e] = pre @ x # post \<longleftrightarrow>
     (post = [] \<and> pre = T \<and> e = x) \<or> (\<exists>post'. post = post' @ [e] \<and> T = pre @ x # post')"
proof (cases post rule: rev_cases)
  case Nil
  then show ?thesis by auto
next
  case (snoc post' y)
  have "T @ [e] = (pre @ x # post') @ [y] \<longleftrightarrow> T = pre @ x # post' \<and> e = y"
    by (rule append1_eq_conv)
  with snoc show ?thesis by auto
qed

lemma start_guarded_snoc:
  "start_guarded f0 (T @ [e]) \<longleftrightarrow>
     start_guarded f0 T \<and>
     (e = Write bStartRoSpec \<longrightarrow>
        (\<exists>pre'. T = pre' @ [Assign_isStartROSpecSent True] \<and> \<not> startFlag f0 pre'))"
  unfolding start_guarded_def snoc_eq_split by blast

lemma start_guarded_append:
  "start_guarded f0 T \<Longrightarrow> Write bStartRoSpec \<notin> set es \<Longrightarrow> start_guarded f0 (T @ es)"
proof (induction es rule: rev_induct)
  case Nil
  then show ?case by simp
next
  case (snoc e es)
  then have "start_guarded f0 (T @ es)" and "e \<noteq> Write bStartRoSpec" by auto
  then have "start_guarded f0 ((T @ es) @ [e])"
    unfolding start_guarded_snoc by simp
  then show ?case by simp
qed

lemma start_inv_step:
  assumes "step s s'" and "start_inv f0 s"
  shows "start_inv f0 s'"
  using assms
proof cases
  case (step_event e)
  with assms(2) show ?thesis
    by (cases e)
      (auto simp: start_inv_def record_event_def startFlag_snoc start_guarded_snoc
        neutral_def)
next
  case step_reset
  with assms(2) show ?thesis
    by (simp add: start_inv_def resetIsStartROSpecSent_def record_event_def
        startFlag_snoc start_guarded_snoc)
next
  case step_start
  from assms(2) have a: "\<not> startFlag f0 (trace s)" "start_guarded f0 (trace s)"
    using step_start(2) by (simp_all add: start_inv_def)
  have t: "trace s' = (trace s @ [Assign_isStartROSpecSent True]) @ [Write bStartRoSpec]"
    and f: "isStartROSpecSent s'"
    using step_start by (simp_all add: sendStartROSpec_def client_write_def record_event_def)
  have g1: "start_guarded f0 (trace s @ [Assign_isStartROSpecSent True])"
    using a by (simp add: start_guarded_snoc)
  have "start_guarded f0 (trace s')"
    unfolding t start_guarded_snoc [of f0 "trace s @ [Assign_isStartROSpecSent True]"]
    using g1 a by blast
  moreover have "startFlag f0 (trace s')"
    unfolding t by (simp add: startFlag_append)
  ultimately show ?thesis using f by (simp add: start_inv_def)
next
  case step_config
  with assms(2) show ?thesis
    by (simp add: start_inv_def client_write_def record_event_def startFlag_append
        start_guarded_append bStartRoSpec_neq_bSetReaderConfig)
next
  case (step_queue q)
  with assms(2) show ?thesis by (simp add: start_inv_def)
qed

lemma start_inv_steps: "steps s s' \<Longrightarrow> start_inv f0 s \<Longrightarrow> start_inv f0 s'"
  by (induction rule: rtranclp_induct) (auto intro: start_inv_step)

lemma start_inv_llrpMain: "start_inv (isStartROSpecSent (llrpMain c)) (llrpMain c)"
  by (simp add: start_inv_def start_guarded_def llrpMain_def)

lemma start_guarded_once:
  assumes g: "start_guarded f0 T"
    and T: "T = a @ Write bStartRoSpec # b @ Write bStartRoSpec # c"
  shows "Assign_isStartROSpecSent False \<in> set b"
proof (rule ccontr)
  assume n: "Assign_isStartROSpecSent False \<notin> set b"
  from g T obtain a' where a: "a = a' @ [Assign_isStartROSpecSent True]"
    unfolding start_guarded_def by blast
  from T have "T = (a @ Write bStartRoSpec # b) @ Write bStartRoSpec # c" by simp
  with g obtain p where p: "a @ Write bStartRoSpec # b = p @ [Assign_isStartROSpecSent True]"
    and fp: "\<not> startFlag f0 p"
    unfolding start_guarded_def by blast
  show False
  proof (cases b rule: rev_cases)
    case Nil
    with p show False by simp
  next
    case (snoc b' y)
    with p have "p = a @ Write bStartRoSpec # b'" by simp
    with a have "startFlag f0 p = startFlag True b'"
      by (simp add: startFlag_append)
    moreover from n snoc have "startFlag True b'"
      by (intro startFlag_no_reset) simp
    ultimately show False using fp by simp
  qed
qed

lemma trace_resetIsStartROSpecSent:
  "trace (resetIsStartROSpecSent s) = trace s @ [Assign_isStartROSpecSent False]"
  by (simp add: resetIsStartROSpecSent_def record_event_def)

lemma trace_handleReaderNotification_loop:
  "\<exists>n. trace (final (handleReaderNotification_loop md ps s)) =
          trace s @ replicate n (Assign_isStartROSpecSent False) \<and>
        (0 < n \<longrightarrow> cycle_ended md ps)"
proof (induction ps arbitrary: s)
  case Nil
  show ?case by simp
next
  case (Cons p ps)
  show ?case
  proof (cases "signals_cycle_end md p")
    case True
    then have l: "handleReaderNotification_loop md (p # ps) s =
        handleReaderNotification_loop md ps (resetIsStartROSpecSent s)"
      by (auto simp: signals_cycle_end_def split: option.splits)
    from Cons.IH [of "resetIsStartROSpecSent s"] obtain n where
      "trace (final (handleReaderNotification_loop md ps (resetIsStartROSpecSent s))) =
         trace s @ replicate (Suc n) (Assign_isStartROSpecSent False)"
      by (auto simp: trace_resetIsStartROSpecSent)
    moreover from True have "cycle_ended md (p # ps)"
      by (simp add: cycle_ended_def)
    ultimately show ?thesis unfolding l by blast
  next
    case False
    from Cons.IH [of s] obtain n where
      n: "trace (final (handleReaderNotification_loop md ps s)) =
         trace s @ replicate n (Assign_isStartROSpecSent False)"
        "0 < n \<longrightarrow> cycle_ended md ps"
      by blast
    have "handleReaderNotification_loop md (p # ps) s =
            handleReaderNotification_loop md ps s \<or>
          (\<exists>e. handleReaderNotification_loop md (p # ps) s = Inl (e, s))"
      using False by (auto simp: signals_cycle_end_def split: option.splits sum.splits)
    then show ?thesis
    proof
      assume "handleReaderNotification_loop md (p # ps) s =
            handleReaderNotification_loop md ps s"
      with n show ?thesis by (auto simp: cycle_ended_def)
    next
      assume "\<exists>e. handleReaderNotification_loop md (p # ps) s = Inl (e, s)"
      then obtain e where "handleReaderNotification_loop md (p # ps) s = Inl (e, s)" ..
      then have "trace (final (handleReaderNotification_loop md (p # ps) s)) =
          trace s @ replicate 0 (Assign_isStartROSpecSent False)"
        by simp
      then show ?thesis by blast
    qed
  qed
qed

lemma reset_handleReaderNotification:
  assumes "Assign_isStartROSpecSent False \<in>
           set (new_events s (final (handleReaderNotification md msg s)))"
  shows "\<exists>ps. decode_parameter md (getParameter msg) = Some ps \<and> cycle_ended md ps"
proof (cases "decode_parameter md (getParameter msg)")
  case None
  with assms show ?thesis
    by (simp add: handleReaderNotification_def Let_def new_events_def record_event_def)
next
  case (Some ps)
  let ?s0 = "record_event (Call_decode_parameter (getParameter msg)) s"
  from trace_handleReaderNotification_loop [of md ps ?s0] obtain n where
    n: "trace (final (handleReaderNotification_loop md ps ?s0)) =
          trace ?s0 @ replicate n (Assign_isStartROSpecSent False)"
       "0 < n \<longrightarrow> cycle_ended md ps"
    by blast
  have "0 < n"
  proof (rule ccontr)
    assume "\<not> 0 < n"
    with n have t: "trace (final (handleReaderNotification_loop md ps ?s0)) = trace ?s0"
      by simp
    show False
    proof (cases "handleReaderNotification_loop md ps ?s0")
      case (Inl e)
      with t assms Some show False
        by (cases e)
          (simp add: handleReaderNotification_def Let_def new_events_def record_event_def)
    next
      case (Inr s1)
      with t have "trace s1 = trace s @ [Call_decode_parameter (getParameter msg)]"
        by (simp add: record_event_def)
      with Inr assms Some show False
        by (auto simp: handleReaderNotification_def Let_def new_events_def
            record_event_def client_write_def sendStartROSpec_def split: if_splits)
    qed
  qed
  with n Some show ?thesis by simp
qed

lemma reset_dispatch:
  assumes "Assign_isStartROSpecSent False \<in> set (new_events s (final (dispatch md msg s)))"
  shows "mtype msg = READER_EVENT_NOTIFICATION md \<and>
         (\<exists>ps. decode_parameter md (getParameter msg) = Some ps \<and> cycle_ended md ps)"
proof (cases "mtype msg = READER_EVENT_NOTIFICATION md")
  case True
  with assms show ?thesis
    by (simp add: dispatch_def reset_handleReaderNotification)
next
  case False
  with assms show ?thesis
    by (auto simp: dispatch_def new_events_def client_write_def record_event_def
        sendStartROSpec_def handleROAccessReport_def process_nextTick_def
        split: if_splits)
qed

lemma reset_runTask:
  assumes "Assign_isStartROSpecSent False \<in> set (new_events s (final (runTask md t s)))"
  shows "\<exists>msg. t = Tick_handleROAccessReport msg"
  using assms by (cases t) (simp_all add: new_events_def record_event_def)

lemma tickQueue_sendStartROSpec [simp]: "tickQueue (sendStartROSpec s) = tickQueue s"
  by (simp add: sendStartROSpec_def client_write_def)

lemma tickQueue_client_write [simp]: "tickQueue (client_write buf s) = tickQueue s"
  by (simp add: client_write_def)

lemma tickQueue_handleReaderNotification_loop:
  "tickQueue (final (handleReaderNotification_loop md ps s)) = tickQueue s"
  by (induction ps arbitrary: s) (simp_all split: option.split sum.split)

lemma tickQueue_handleReaderNotification:
  "tickQueue (final (handleReaderNotification md msg s)) = tickQueue s"
proof (cases "decode_parameter md (getParameter msg)")
  case None
  then show ?thesis by (simp add: handleReaderNotification_def Let_def)
next
  case (Some ps)
  let ?s0 = "record_event (Call_decode_parameter (getParameter msg)) s"
  from tickQueue_handleReaderNotification_loop [of md ps ?s0] Some show ?thesis
    by (cases "handleReaderNotification_loop md ps ?s0")
      (auto simp: handleReaderNotification_def Let_def)
qed

lemma queued_dispatch:
  assumes "Tick_handleROAccessReport m \<in> set (tickQueue (final (dispatch md msg s)))"
  shows "Tick_handleROAccessReport m \<in> set (tickQueue s) \<or>
         (m = msg \<and> mtype msg = RO_ACCESS_REPORT md)"
  using assms
  by (auto simp: dispatch_def tickQueue_handleReaderNotification handleROAccessReport_def
      process_nextTick_def split: if_splits)

text \<open>
  Claim C1 (start-command deduplication). Let \<open>T\<close> be the trace of any sequence of
  transport deliveries on the connection that the constructor set up, and \<open>f0\<close> the
  initial value of \<^verbatim>\<open>isStartROSpecSent\<close>.
  \<^item> Every write of the start-read-spec command in \<open>T\<close> comes directly after the
    assignment of \<open>True\<close> to the flag, and the flag, replayed over the trace before
    that assignment, was \<open>False\<close>: the command is written only when the flag is false,
    and the flag is set before the write.
  \<^item> Between two writes of the command the flag was assigned \<open>False\<close>: at most one
    start-read-spec is sent while the flag stays true.
  \<^item> The flag of the final session is the replay of the assignments in \<open>T\<close>.
  \<^item> Dispatching a message assigns \<open>False\<close> to the flag only if the message is a
    reader-event notification whose decoded parameters signal the end of the cycle; a
    queued callback assigns \<open>False\<close> only if it is the body of
    \<^verbatim>\<open>handleROAccessReport\<close>, and such a callback is queued only by dispatching a
    message of type \<^verbatim>\<open>RO_ACCESS_REPORT\<close>.
\<close>

theorem start_dedup:
  "(let T = trace (final (deliveries md ds (llrpMain config)));
        f0 = isStartROSpecSent (llrpMain config)
    in (\<forall>pre post. T = pre @ Write bStartRoSpec # post \<longrightarrow>
          (\<exists>pre'. pre = pre' @ [Assign_isStartROSpecSent True] \<and> \<not> startFlag f0 pre')) \<and>
       (\<forall>a b c. T = a @ Write bStartRoSpec # b @ Write bStartRoSpec # c \<longrightarrow>
          Assign_isStartROSpecSent False \<in> set b) \<and>
       isStartROSpecSent (final (deliveries md ds (llrpMain config))) = startFlag f0 T) \<and>
   (\<forall>s msg. Assign_isStartROSpecSent False \<in> set (new_events s (final (dispatch md msg s)))
      \<longrightarrow> mtype msg = READER_EVENT_NOTIFICATION md \<and>
          (\<exists>ps. decode_parameter md (getParameter msg) = Some ps \<and> cycle_ended md ps)) \<and>
   (\<forall>s t. Assign_isStartROSpecSent False \<in> set (new_events s (final (runTask md t s)))
      \<longrightarrow> (\<exists>msg. t = Tick_handleROAccessReport msg)) \<and>
   (\<forall>s msg m. Tick_handleROAccessReport m \<in> set (tickQueue (final (dispatch md msg s)))
      \<longrightarrow> Tick_handleROAccessReport m \<in> set (tickQueue s) \<or>
          (m = msg \<and> mtype msg = RO_ACCESS_REPORT md))"
proof -
  let ?init = "llrpMain config"
  let ?fin = "final (deliveries md ds ?init)"
  have "start_inv (isStartROSpecSent ?init) ?fin"
    by (rule start_inv_steps [OF steps_deliveries start_inv_llrpMain])
  then have f: "isStartROSpecSent ?fin = startFlag (isStartROSpecSent ?init) (trace ?fin)"
    and g: "start_guarded (isStartROSpecSent ?init) (trace ?fin)"
    by (simp_all add: start_inv_def)
  from g have 1: "\<forall>pre post. trace ?fin = pre @ Write bStartRoSpec # post \<longrightarrow>
          (\<exists>pre'. pre = pre' @ [Assign_isStartROSpecSent True] \<and>
             \<not> startFlag (isStartROSpecSent ?init) pre')"
    by (simp add: start_guarded_def)
  from g have 2: "\<forall>a b c. trace ?fin = a @ Write bStartRoSpec # b @ Write bStartRoSpec # c \<longrightarrow>
          Assign_isStartROSpecSent False \<in> set b"
    by (blast intro: start_guarded_once)
  from 1 2 f show ?thesis
    unfolding Let_def
    by (intro conjI allI impI reset_dispatch reset_runTask queued_dispatch) blast+
qed

theorem start_dedup_witness:
  "Assign_isStartROSpecSent False \<in>
     set [Assign_isStartROSpecSent False, Call_decode_parameter [],
          Call_decode_message [2], Assign_isStartROSpecSent True] \<and>
   (\<exists>pre'. [Call_decode_message [1], Assign_isStartROSpecSent True] =
             pre' @ [Assign_isStartROSpecSent True] \<and>
           \<not> startFlag (isStartROSpecSent (llrpMain default_config)) pre') \<and>
   (mtype (Message 63 [9]) = READER_EVENT_NOTIFICATION stub_modules \<and>
    (\<exists>ps. decode_parameter stub_modules (getParameter (Message 63 [9])) = Some ps \<and>
          cycle_ended stub_modules ps)) \<and>
   (\<exists>msg. Tick_handleROAccessReport (Message 61 []) = Tick_handleROAccessReport msg) \<and>
   (Tick_handleROAccessReport (Message 61 []) \<in> set (tickQueue (llrpMain default_config)) \<or>
    Message 61 [] = Message 61 [] \<and>
    mtype (Message 61 []) = RO_ACCESS_REPORT stub_modules)"
proof -
  have T: "trace (final (deliveries stub_modules [Some [1], Some [2]]
              (llrpMain default_config))) =
           [Call_decode_message [1], Assign_isStartROSpecSent True] @
           Write bStartRoSpec #
           [Assign_isStartROSpecSent False, Call_decode_parameter [],
            Call_decode_message [2], Assign_isStartROSpecSent True] @
           Write bStartRoSpec # []"
    by code_simp
  have T': "trace (final (deliveries stub_modules [Some [1], Some [2]]
              (llrpMain default_config))) =
           [Call_decode_message [1], Assign_isStartROSpecSent True] @
           Write bStartRoSpec #
           [Assign_isStartROSpecSent False, Call_decode_parameter [],
            Call_decode_message [2], Assign_isStartROSpecSent True,
            Write bStartRoSpec]"
    using T by simp
  have D: "Assign_isStartROSpecSent False \<in>
      set (new_events (llrpMain default_config)
        (final (dispatch stub_modules (Message 63 [9]) (llrpMain default_config))))"
    by code_simp
  have R: "Assign_isStartROSpecSent False \<in>
      set (new_events (llrpMain default_config)
        (final (runTask stub_modules (Tick_handleROAccessReport (Message 61 []))
           (llrpMain default_config))))"
    by code_simp
  have Q: "Tick_handleROAccessReport (Message 61 []) \<in>
      set (tickQueue (final (dispatch stub_modules (Message 61 [])
        (llrpMain default_config))))"
    by code_simp
  from start_dedup [of stub_modules "[Some [1], Some [2]]" default_config,
      unfolded Let_def, THEN conjunct1, THEN conjunct2, THEN conjunct1, rule_format, OF T]
    start_dedup [of stub_modules "[Some [1], Some [2]]" default_config,
      unfolded Let_def, THEN conjunct1, THEN conjunct1, rule_format, OF T']
    start_dedup [of stub_modules "[Some [1], Some [2]]" default_config,
      unfolded Let_def, THEN conjunct2, THEN conjunct1, rule_format, OF D]
    start_dedup [of stub_modules "[Some [1], Some [2]]" default_config,
      unfolded Let_def, THEN conjunct2, THEN conjunct2, THEN conjunct1, rule_format, OF R]
    start_dedup [of stub_modules "[Some [1], Some [2]]" default_config,
      unfolded Let_def, THEN conjunct2, THEN conjunct2, THEN conjunct2, rule_format, OF Q]
  show ?thesis by blast
qed

section \<open>Idempotent configuration\<close>

lemma config_inv_step:
  assumes "step s s'" and "config_inv s"
  shows "config_inv s'"
  using assms
proof cases
  case (step_event e)
  with assms(2) show ?thesis
    by (cases e) (auto simp: config_inv_def record_event_def neutral_def)
next
  case step_reset
  with assms(2) show ?thesis
    by (simp add: config_inv_def resetIsStartROSpecSent_def record_event_def)
next
  case step_start
  with assms(2) show ?thesis
    by (simp add: config_inv_def sendStartROSpec_def client_write_def record_event_def
        bStartRoSpec_neq_bSetReaderConfig)
next
  case step_config
  with assms(2) show ?thesis
    by (simp add: config_inv_def client_write_def record_event_def)
next
  case (step_queue q)
  with assms(2) show ?thesis by (simp add: config_inv_def)
qed

lemma config_inv_steps: "steps s s' \<Longrightarrow> config_inv s \<Longrightarrow> config_inv s'"
  by (induction rule: rtranclp_induct) (auto intro: config_inv_step)

lemma config_inv_llrpMain: "config_inv (llrpMain c)"
  by (simp add: config_inv_def llrpMain_def)

lemma config_sticky_step:
  assumes "step s s'" and "isReaderConfigSet s"
  shows "isReaderConfigSet s' \<and>
         count_list (trace s') (Write bSetReaderConfig) =
         count_list (trace s) (Write bSetReaderConfig)"
  using assms
proof cases
  case (step_event e)
  with assms(2) show ?thesis
    by (cases e) (auto simp: record_event_def neutral_def)
next
  case step_reset
  with assms(2) show ?thesis
    by (simp add: resetIsStartROSpecSent_def record_event_def)
next
  case step_start
  with assms(2) show ?thesis
    by (simp add: sendStartROSpec_def client_write_def record_event_def
        bStartRoSpec_neq_bSetReaderConfig)
next
  case step_config
  with assms(2) show ?thesis by simp
next
  case (step_queue q)
  with assms(2) show ?thesis by simp
qed

lemma config_sticky_steps:
  "steps s s' \<Longrightarrow> isReaderConfigSet s \<Longrightarrow>
   isReaderConfigSet s' \<and>
   count_list (trace s') (Write bSetReaderConfig) =
   count_list (trace s) (Write bSetReaderConfig)"
proof (induction rule: rtranclp_induct)
  case base
  then show ?case by simp
next
  case (step y z)
  from step.IH [OF step.prems] config_sticky_step [OF step.hyps(2)] show ?case by simp
qed

text \<open>
  Claim C2 (configuration idempotence). In the trace of any sequence of transport
  deliveries on the connection that the constructor set up, \<^verbatim>\<open>isReaderConfigSet\<close> is
  never assigned \<open>False\<close>, is assigned \<open>True\<close> at most once, and the configure-reader
  command is written at most once. From any session in which the flag is set, any
  sequence of deliveries leaves the flag set and writes no configure-reader command.
\<close>

theorem configuration_idempotence:
  "(let s' = final (deliveries md ds (llrpMain config))
    in Assign_isReaderConfigSet False \<notin> set (trace s') \<and>
       count_list (trace s') (Assign_isReaderConfigSet True) \<le> 1 \<and>
       count_list (trace s') (Write bSetReaderConfig) \<le> 1) \<and>
   (isReaderConfigSet s \<longrightarrow>
      isReaderConfigSet (final (deliveries md ds s)) \<and>
      count_list (trace (final (deliveries md ds s))) (Write bSetReaderConfig) =
      count_list (trace s) (Write bSetReaderConfig))"
proof -
  have "config_inv (final (deliveries md ds (llrpMain config)))"
    by (rule config_inv_steps [OF steps_deliveries config_inv_llrpMain])
  then have "Assign_isReaderConfigSet False \<notin>
        set (trace (final (deliveries md ds (llrpMain config))))"
    and "count_list (trace (final (deliveries md ds (llrpMain config))))
        (Assign_isReaderConfigSet True) \<le> 1"
    and "count_list (trace (final (deliveries md ds (llrpMain config))))
        (Write bSetReaderConfig) \<le> 1"
    by (auto simp: config_inv_def split: if_splits)
  with config_sticky_steps [OF steps_deliveries, of s md ds] show ?thesis
    by (simp add: Let_def)
qed

theorem configuration_idempotence_witness:
  "isReaderConfigSet (final (deliveries stub_modules [Some [3], Some [3]]
      (final (deliveries stub_modules [Some [3]] (llrpMain default_config))))) \<and>
   count_list (trace (final (deliveries stub_modules [Some [3], Some [3]]
      (final (deliveries stub_modules [Some [3]] (llrpMain default_config))))))
     (Write bSetReaderConfig) = 1"
proof -
  have a: "isReaderConfigSet
      (final (deliveries stub_modules [Some [3]] (llrpMain default_config)))"
    by code_simp
  have b: "count_list
      (trace (final (deliveries stub_modules [Some [3]] (llrpMain default_config))))
      (Write bSetReaderConfig) = 1"
    by code_simp
  from configuration_idempotence
    [of stub_modules "[Some [3], Some [3]]" default_config
      "final (deliveries stub_modules [Some [3]] (llrpMain default_config))",
     THEN conjunct2, rule_format, OF a] b
  show ?thesis by simp
qed

section \<open>Reader-event dispatch\<close>

lemma writes_simps [simp]:
  "writes [] = []"
  "writes (Write buf # es) = buf # writes es"
  "writes (Emit_didSeeTag t # es) = writes es"
  "writes (Console_log l # es) = writes es"
  "writes (Assign_isStartROSpecSent b # es) = writes es"
  "writes (Assign_isReaderConfigSet b # es) = writes es"
  "writes (Call_decode_message d # es) = writes es"
  "writes (Call_decode_parameter d # es) = writes es"
  "writes (xs @ ys) = writes xs @ writes ys"
  by (simp_all add: writes_def)

lemma writes_replicate_reset [simp]:
  "writes (replicate n (Assign_isStartROSpecSent False)) = []"
  by (induction n) simp_all

lemma handleReaderNotification_loop_wellformed:
  assumes "\<forall>p\<in>set ps. ptype p = ReaderEventNotificationData md \<longrightarrow>
             mapSubParameters p (ROSpecEvent md) \<noteq> Some []"
  shows "handleReaderNotification_loop md ps s =
     Inr (s\<lparr>isStartROSpecSent := isStartROSpecSent s \<and> \<not> cycle_ended md ps,
           trace := trace s @
             replicate (length (filter (signals_cycle_end md) ps))
               (Assign_isStartROSpecSent False)\<rparr>)"
  using assms
proof (induction ps arbitrary: s)
  case Nil
  show ?case by (simp add: cycle_ended_def)
next
  case (Cons p ps)
  from Cons.prems have wf: "\<forall>p\<in>set ps. ptype p = ReaderEventNotificationData md \<longrightarrow>
             mapSubParameters p (ROSpecEvent md) \<noteq> Some []"
    by simp
  note IH = Cons.IH [OF wf]
  show ?case
  proof (cases "signals_cycle_end md p")
    case True
    then have "handleReaderNotification_loop md (p # ps) s =
        handleReaderNotification_loop md ps (resetIsStartROSpecSent s)"
      by (auto simp: signals_cycle_end_def split: option.splits)
    with True show ?thesis
      by (simp add: IH cycle_ended_def resetIsStartROSpecSent_def record_event_def)
  next
    case False
    have "handleReaderNotification_loop md (p # ps) s =
            handleReaderNotification_loop md ps s"
    proof (cases "ptype p = ReaderEventNotificationData md")
      case rend: True
      show ?thesis
      proof (cases "mapSubParameters p (ROSpecEvent md)")
        case None
        with rend show ?thesis by simp
      next
        case (Some v)
        with rend Cons.prems have "v \<noteq> []" by auto
        then have "readUInt8 v 0 = Inr (unat (v ! 0))"
          by (cases v) (simp_all add: readUInt8_def)
        with rend Some False show ?thesis
          by (simp add: signals_cycle_end_def)
      qed
    next
      case False
      then show ?thesis by simp
    qed
    with False show ?thesis
      by (simp add: IH cycle_ended_def)
  qed
qed

lemma reader_event_wellformed:
  assumes "mtype msg = READER_EVENT_NOTIFICATION md"
    and "decode_parameter md (getParameter msg) = Some ps"
    and "\<forall>p\<in>set ps. ptype p = ReaderEventNotificationData md \<longrightarrow>
           mapSubParameters p (ROSpecEvent md) \<noteq> Some []"
  shows "\<exists>s'. dispatch md msg s = Inr s' \<and>
     (Assign_isStartROSpecSent False \<in> set (new_events s s') \<longleftrightarrow> cycle_ended md ps) \<and>
     isReaderConfigSet s' \<and>
     (if \<not> isReaderConfigSet s
      then writes (new_events s s') = [bSetReaderConfig] \<and>
           isStartROSpecSent s' = (isStartROSpecSent s \<and> \<not> cycle_ended md ps)
      else writes (new_events s s') =
             (if isStartROSpecSent s \<and> \<not> cycle_ended md ps then [] else [bStartRoSpec]) \<and>
           isStartROSpecSent s')"
proof -
  let ?init = "record_event (Call_decode_parameter (getParameter msg)) s"
  let ?n = "length (filter (signals_cycle_end md) ps)"
  let ?mid = "?init\<lparr>isStartROSpecSent := isStartROSpecSent ?init \<and> \<not> cycle_ended md ps,
           trace := trace ?init @ replicate ?n (Assign_isStartROSpecSent False)\<rparr>"
  have loop: "handleReaderNotification_loop md ps ?init = Inr ?mid"
    by (rule handleReaderNotification_loop_wellformed [OF assms(3)])
  have n: "0 < ?n \<longleftrightarrow> cycle_ended md ps"
    by (simp add: cycle_ended_def list_ex_iff filter_empty_conv)
  have mem: "Assign_isStartROSpecSent False \<in>
      set (replicate ?n (Assign_isStartROSpecSent False)) \<longleftrightarrow> cycle_ended md ps"
    using n by auto
  show ?thesis
  proof (cases "isReaderConfigSet s")
    case False
    then have "dispatch md msg s =
        Inr (record_event (Assign_isReaderConfigSet True)
              ((client_write bSetReaderConfig ?mid)\<lparr>isReaderConfigSet := True\<rparr>))"
      using assms(1,2) loop
      by (simp add: dispatch_def handleReaderNotification_def Let_def record_event_def)
    with False mem show ?thesis
      by (simp add: new_events_def record_event_def client_write_def)
  next
    case True
    then have d: "dispatch md msg s = Inr (sendStartROSpec ?mid)"
      using assms(1,2) loop
      by (simp add: dispatch_def handleReaderNotification_def Let_def record_event_def)
    show ?thesis
    proof (cases "isStartROSpecSent s \<and> \<not> cycle_ended md ps")
      case t: True
      with True d mem show ?thesis
        by (simp add: new_events_def record_event_def sendStartROSpec_def)
    next
      case f: False
      with True d mem show ?thesis
        by (auto simp: new_events_def record_event_def sendStartROSpec_def
            client_write_def)
    qed
  qed
qed

lemma handleReaderNotification_loop_throws:
  assumes "\<exists>p\<in>set ps. ptype p = ReaderEventNotificationData md \<and>
             mapSubParameters p (ROSpecEvent md) = Some []"
  shows "\<exists>s'. handleReaderNotification_loop md ps s = Inl (RangeError, s')"
  using assms
proof (induction ps arbitrary: s)
  case Nil
  then show ?case by simp
next
  case (Cons p ps)
  show ?case
  proof (cases "ptype p = ReaderEventNotificationData md \<and>
             mapSubParameters p (ROSpecEvent md) = Some []")
    case True
    then show ?thesis by (simp add: readUInt8_def)
  next
    case False
    with Cons.prems have "\<exists>p\<in>set ps. ptype p = ReaderEventNotificationData md \<and>
             mapSubParameters p (ROSpecEvent md) = Some []"
      by auto
    from Cons.IH [OF this] show ?thesis
      by (auto simp: readUInt8_def split: option.split sum.split if_splits)
  qed
qed

lemma isReaderConfigSet_handleReaderNotification_loop:
  "isReaderConfigSet (final (handleReaderNotification_loop md ps s)) = isReaderConfigSet s"
  by (induction ps arbitrary: s)
    (simp_all add: resetIsStartROSpecSent_def record_event_def split: option.split sum.split)

lemma reader_event_throws:
  assumes "mtype msg = READER_EVENT_NOTIFICATION md"
    and "decode_parameter md (getParameter msg) = Some ps"
    and "\<exists>p\<in>set ps. ptype p = ReaderEventNotificationData md \<and>
           mapSubParameters p (ROSpecEvent md) = Some []"
  shows "\<exists>s'. dispatch md msg s = Inl (RangeError, s') \<and>
           writes (new_events s s') = [] \<and> isReaderConfigSet s' = isReaderConfigSet s"
proof -
  let ?init = "record_event (Call_decode_parameter (getParameter msg)) s"
  from handleReaderNotification_loop_throws [OF assms(3)] obtain s' where
    l: "handleReaderNotification_loop md ps ?init = Inl (RangeError, s')"
    by blast
  from trace_handleReaderNotification_loop [of md ps ?init] l obtain n where
    "trace s' = trace ?init @ replicate n (Assign_isStartROSpecSent False)"
    by auto
  then have "writes (new_events s s') = []"
    by (simp add: new_events_def record_event_def)
  moreover from isReaderConfigSet_handleReaderNotification_loop [of md ps ?init] l
  have "isReaderConfigSet s' = isReaderConfigSet s"
    by (simp add: record_event_def)
  moreover from l assms(1,2) have "dispatch md msg s = Inl (RangeError, s')"
    by (simp add: dispatch_def handleReaderNotification_def Let_def)
  ultimately show ?thesis by blast
qed

text \<open>
  Claim C3 (reader-event dispatch), amended. Let a message of type
  \<^verbatim>\<open>READER_EVENT_NOTIFICATION\<close> have a parameter block that decodes to the
  parameters \<open>ps\<close>.
  \<^item> If no event-notification parameter of \<open>ps\<close> has a flattened \<^verbatim>\<open>ROSpecEvent\<close>
    value of zero bytes, the handler returns. It assigns \<open>False\<close> to
    \<^verbatim>\<open>isStartROSpecSent\<close> exactly when some event-notification parameter has a
    flattened \<^verbatim>\<open>ROSpecEvent\<close> value whose first byte is 1. Afterwards, if
    \<^verbatim>\<open>isReaderConfigSet\<close> was false, the configure-reader command is the one command
    written and the flag is set; otherwise start-read-spec is written exactly when
    \<^verbatim>\<open>isStartROSpecSent\<close> is false after the reset, and that flag is set.
  \<^item> If some event-notification parameter has a flattened \<^verbatim>\<open>ROSpecEvent\<close> value of
    zero bytes, the handler throws a \<^verbatim>\<open>RangeError\<close>, no command is written and
    \<^verbatim>\<open>isReaderConfigSet\<close> is as it was.
\<close>

theorem reader_event_dispatch:
  assumes "mtype msg = READER_EVENT_NOTIFICATION md"
    and "decode_parameter md (getParameter msg) = Some ps"
  shows
    "((\<forall>p\<in>set ps. ptype p = ReaderEventNotificationData md \<longrightarrow>
         mapSubParameters p (ROSpecEvent md) \<noteq> Some []) \<longrightarrow>
      (\<exists>s'. dispatch md msg s = Inr s' \<and>
         (Assign_isStartROSpecSent False \<in> set (new_events s s') \<longleftrightarrow> cycle_ended md ps) \<and>
         isReaderConfigSet s' \<and>
         (if \<not> isReaderConfigSet s
          then writes (new_events s s') = [bSetReaderConfig] \<and>
               isStartROSpecSent s' = (isStartROSpecSent s \<and> \<not> cycle_ended md ps)
          else writes (new_events s s') =
                 (if isStartROSpecSent s \<and> \<not> cycle_ended md ps then []
                  else [bStartRoSpec]) \<and>
               isStartROSpecSent s'))) \<and>
     ((\<exists>p\<in>set ps. ptype p = ReaderEventNotificationData md \<and>
         mapSubParameters p (ROSpecEvent md) = Some []) \<longrightarrow>
      (\<exists>s'. dispatch md msg s = Inl (RangeError, s') \<and>
         writes (new_events s s') = [] \<and> isReaderConfigSet s' = isReaderConfigSet s))"
  using reader_event_wellformed [OF assms] reader_event_throws [OF assms]
  by blast

theorem reader_event_dispatch_witness:
  "(\<exists>s'. dispatch stub_modules (Message 63 [9]) (llrpMain default_config) = Inr s' \<and>
     cycle_ended stub_modules [Parameter 246 [] [Parameter 249 [1, 0, 0, 0, 1] []]] \<and>
     isReaderConfigSet s' \<and> \<not> isStartROSpecSent s' \<and>
     writes (new_events (llrpMain default_config) s') = [bSetReaderConfig]) \<and>
   (\<exists>s'. dispatch stub_modules (Message 63 [8]) (llrpMain default_config) =
       Inl (RangeError, s') \<and>
     writes (new_events (llrpMain default_config) s') = [] \<and> \<not> isReaderConfigSet s')"
proof -
  have a: "mtype (Message 63 b) = READER_EVENT_NOTIFICATION stub_modules" for b
    by (simp add: stub_modules_def llrp_modules_def)
  have b: "decode_parameter stub_modules (getParameter (Message 63 [9])) =
      Some [Parameter 246 [] [Parameter 249 [1, 0, 0, 0, 1] []]]"
    by (simp add: stub_modules_def llrp_modules_def stub_decode_parameter_def)
  have c: "\<forall>p\<in>set [Parameter 246 [] [Parameter 249 [1, 0, 0, 0, 1] []]].
      ptype p = ReaderEventNotificationData stub_modules \<longrightarrow>
      mapSubParameters p (ROSpecEvent stub_modules) \<noteq> Some []"
    by (simp add: stub_modules_def llrp_modules_def mapSubParameters_def)
  have d: "cycle_ended stub_modules [Parameter 246 [] [Parameter 249 [1, 0, 0, 0, 1] []]]"
    by code_simp
  have e: "\<not> isReaderConfigSet (llrpMain default_config)"
    "\<not> isStartROSpecSent (llrpMain default_config)"
    by (simp_all add: llrpMain_def default_config_def)
  have b': "decode_parameter stub_modules (getParameter (Message 63 [8])) =
      Some [Parameter 246 [] [Parameter 249 [] []]]"
    by (simp add: stub_modules_def llrp_modules_def stub_decode_parameter_def)
  have c': "\<exists>p\<in>set [Parameter 246 [] [Parameter 249 [] []]].
      ptype p = ReaderEventNotificationData stub_modules \<and>
      mapSubParameters p (ROSpecEvent stub_modules) = Some []"
    by (simp add: stub_modules_def llrp_modules_def mapSubParameters_def)
  from reader_event_dispatch [OF a b, of "llrpMain default_config", THEN conjunct1,
      THEN mp, OF c]
    reader_event_dispatch [OF a b', of "llrpMain default_config", THEN conjunct2,
      THEN mp, OF c'] d e
  show ?thesis by auto
qed

text \<open>
  The claim as it was stated fails on a reader-event notification whose
  \<^verbatim>\<open>ROSpecEvent\<close> sub-parameter has no value byte: \<^verbatim>\<open>isReaderConfigSet\<close> is false,
  and yet no configure-reader command is written and the flag stays false.
\<close>

theorem reader_event_dispatch_counterexample:
  "mtype (Message 63 [8]) = READER_EVENT_NOTIFICATION stub_modules \<and>
   \<not> isReaderConfigSet (llrpMain default_config) \<and>
   Write bSetReaderConfig \<notin> set (trace (final
     (dispatch stub_modules (Message 63 [8]) (llrpMain default_config)))) \<and>
   \<not> isReaderConfigSet (final
     (dispatch stub_modules (Message 63 [8]) (llrpMain default_config)))"
  by code_simp

section \<open>Tag extraction\<close>

lemma hexDigit_range: "n < 16 \<Longrightarrow> hexDigit n \<in> set ''0123456789abcdef''"
  unfolding hexDigit_def by (rule nth_mem) simp

lemma toString_hex_length: "length (toString_hex buf) = 2 * length buf"
  by (induction buf) (simp_all add: toString_hex_def)

lemma toString_hex_digits: "set (toString_hex buf) \<subseteq> set ''0123456789abcdef''"
proof -
  have "unat b div 16 < 16" "unat b mod 16 < 16" for b :: byte
  proof -
    have "unat b < 2 ^ LENGTH(8)" by (rule unsigned_less)
    then have "unat b < 256" by simp
    then show "unat b div 16 < 16" by simp
    show "unat b mod 16 < 16" by simp
  qed
  then have "hexDigit (unat b div 16) \<in> set ''0123456789abcdef''"
    "hexDigit (unat b mod 16) \<in> set ''0123456789abcdef''" for b :: byte
    by (simp_all only: hexDigit_range)
  then show ?thesis
    unfolding toString_hex_def by (induction buf) auto
qed

lemma toString_hex_empty: "toString_hex buf = [] \<longleftrightarrow> buf = []"
  using toString_hex_length [of buf] by (cases buf) auto

lemma tag_extraction_general:
  assumes "ptype p = TagReportData md"
    and "mapSubParameters p (EPC96 md) = Some idv"
    and "mapSubParameters p (TagSeenCount md) = Some cv"
    and "2 \<le> length cv"
  shows "buildTag md (mapSubParameters p) =
           Inr (Tag (Some (toString_hex idv)) (256 * unat (cv ! 0) + unat (cv ! 1))) \<and>
         length (toString_hex idv) = 2 * length idv \<and>
         set (toString_hex idv) \<subseteq> set ''0123456789abcdef'' \<and>
         forEach_callback md p s =
           Inr (let t = Tag (Some (toString_hex idv)) (256 * unat (cv ! 0) + unat (cv ! 1));
                    s1 = console_log (Log_ID t) s
                in if idv \<noteq> [] then process_nextTick (Tick_emit t) s1 else s1)"
proof -
  from assms(2-4) have b: "buildTag md (mapSubParameters p) =
           Inr (Tag (Some (toString_hex idv)) (256 * unat (cv ! 0) + unat (cv ! 1)))"
    by (simp add: buildTag_def readUInt16BE_def)
  with assms(1) have "forEach_callback md p s =
           Inr (let t = Tag (Some (toString_hex idv)) (256 * unat (cv ! 0) + unat (cv ! 1));
                    s1 = console_log (Log_ID t) s
                in if idv \<noteq> [] then process_nextTick (Tick_emit t) s1 else s1)"
    by (simp add: forEach_callback_def Let_def truthy_def toString_hex_empty)
  with b toString_hex_length [of idv] toString_hex_digits [of idv] show ?thesis
    by blast
qed

lemma toString_hex_example:
  "toString_hex [0xAA, 0xBB, 0xCC, 0xDD, 0xEE, 0xFF] = ''aabbccddeeff''"
  by (simp add: toString_hex_def hexDigit_def)

lemma tag_extraction_example:
  assumes "EPC96 md \<noteq> TagSeenCount md"
  shows "buildTag md (mapSubParameters (Parameter (TagReportData md) v
           [Parameter (EPC96 md) [0xAA, 0xBB, 0xCC, 0xDD, 0xEE, 0xFF] [],
            Parameter (TagSeenCount md) [0x00, 0x02] []])) =
         Inr (Tag (Some ''aabbccddeeff'') 2)"
  using assms
  by (simp add: buildTag_def mapSubParameters_def readUInt16BE_def toString_hex_example)

text \<open>
  Claim C4 (tag extraction). For a tag-report-data parameter whose flattened
  sub-parameters hold the identifier value \<open>idv\<close> and a count value \<open>cv\<close> of at least
  two bytes, the object \<^verbatim>\<open>tag\<close> has as \<^verbatim>\<open>tagID\<close> the hexadecimal encoding of
  \<open>idv\<close> (two digits out of \<^verbatim>\<open>0123456789abcdef\<close> for each byte) and as
  \<^verbatim>\<open>tagSeenCount\<close> the big-endian number of the first two bytes of \<open>cv\<close>; the
  callback logs it and, when the identifier has at least one byte, queues its
  publication. In particular, the identifier bytes \<^verbatim>\<open>AABBCCDDEEFF\<close> with the count
  bytes \<^verbatim>\<open>0002\<close> give the tag \<^verbatim>\<open>aabbccddeeff\<close> with count 2, whatever the two
  (distinct) type codes are.
\<close>

theorem tag_extraction:
  "(ptype p = TagReportData md \<and> mapSubParameters p (EPC96 md) = Some idv \<and>
    mapSubParameters p (TagSeenCount md) = Some cv \<and> 2 \<le> length cv \<longrightarrow>
      buildTag md (mapSubParameters p) =
        Inr (Tag (Some (toString_hex idv)) (256 * unat (cv ! 0) + unat (cv ! 1))) \<and>
      length (toString_hex idv) = 2 * length idv \<and>
      set (toString_hex idv) \<subseteq> set ''0123456789abcdef'' \<and>
      forEach_callback md p s =
        Inr (let t = Tag (Some (toString_hex idv)) (256 * unat (cv ! 0) + unat (cv ! 1));
                 s1 = console_log (Log_ID t) s
             in if idv \<noteq> [] then process_nextTick (Tick_emit t) s1 else s1)) \<and>
   (EPC96 md \<noteq> TagSeenCount md \<longrightarrow>
      buildTag md (mapSubParameters (Parameter (TagReportData md) v
        [Parameter (EPC96 md) [0xAA, 0xBB, 0xCC, 0xDD, 0xEE, 0xFF] [],
         Parameter (TagSeenCount md) [0x00, 0x02] []])) =
      Inr (Tag (Some ''aabbccddeeff'') 2))"
  using tag_extraction_general [of p md idv cv s] tag_extraction_example [of md v]
  by blast

theorem tag_extraction_witness:
  "buildTag stub_modules (mapSubParameters stub_tag_report) =
     Inr (Tag (Some ''aabbccddeeff'') 2) \<and>
   tickQueue (final (forEach_callback stub_modules stub_tag_report
      (llrpMain default_config))) = [Tick_emit (Tag (Some ''aabbccddeeff'') 2)] \<and>
   trace (final (deliver stub_modules (Some [5]) (llrpMain default_config))) =
     [Call_decode_message [5], Assign_isStartROSpecSent False, Call_decode_parameter [7],
      Emit_didSeeTag (Tag (Some ''aabbccddeeff'') 2)]"
proof -
  have a: "ptype stub_tag_report = TagReportData stub_modules \<and>
      mapSubParameters stub_tag_report (EPC96 stub_modules) =
        Some [0xAA, 0xBB, 0xCC, 0xDD, 0xEE, 0xFF] \<and>
      mapSubParameters stub_tag_report (TagSeenCount stub_modules) = Some [0x00, 0x02] \<and>
      2 \<le> length [0x00, 0x02 :: byte]"
    by (simp add: stub_tag_report_def stub_modules_def llrp_modules_def mapSubParameters_def)
  have e: "trace (final (deliver stub_modules (Some [5]) (llrpMain default_config))) =
     [Call_decode_message [5], Assign_isStartROSpecSent False, Call_decode_parameter [7],
      Emit_didSeeTag (Tag (Some ''aabbccddeeff'') 2)]"
    by code_simp
  from tag_extraction [of stub_tag_report stub_modules _ _ "llrpMain default_config",
      THEN conjunct1, THEN mp, OF a] toString_hex_example e
  show ?thesis
    by (simp add: Let_def console_log_def process_nextTick_def llrpMain_def
        default_config_def)
qed

section \<open>Missing fields\<close>

text \<open>
  Claim C7 (missing-field defaults). Without a count sub-parameter the tag is built,
  with no exception, with \<^verbatim>\<open>tagSeenCount\<close> 0, and it is queued for publication
  with that count when its identifier has at least one byte. Without an identifier
  sub-parameter
  every tag that is built has \<^verbatim>\<open>tagID\<close> \<^verbatim>\<open>null\<close>, and the callback neither queues a
  publication nor emits anything.
\<close>

theorem missing_field_defaults:
  "(mapSubParameters p (TagSeenCount md) = None \<longrightarrow>
      buildTag md (mapSubParameters p) =
        Inr (Tag (map_option toString_hex (mapSubParameters p (EPC96 md))) 0)) \<and>
   (ptype p = TagReportData md \<and> mapSubParameters p (TagSeenCount md) = None \<and>
    mapSubParameters p (EPC96 md) = Some idv \<and> idv \<noteq> [] \<longrightarrow>
      forEach_callback md p s =
        Inr (process_nextTick (Tick_emit (Tag (Some (toString_hex idv)) 0))
              (console_log (Log_ID (Tag (Some (toString_hex idv)) 0)) s))) \<and>
   (mapSubParameters p (EPC96 md) = None \<longrightarrow>
      (\<forall>t. buildTag md (mapSubParameters p) = Inr t \<longrightarrow> tagID t = None) \<and>
      tickQueue (final (forEach_callback md p s)) = tickQueue s \<and>
      (\<forall>t. Emit_didSeeTag t \<notin> set (new_events s (final (forEach_callback md p s)))))"
  by (auto simp: buildTag_def forEach_callback_def Let_def truthy_def new_events_def
      console_log_def record_event_def toString_hex_empty split: option.splits sum.splits)

theorem missing_field_defaults_witness:
  "buildTag stub_modules
     (mapSubParameters (Parameter 240 [] [Parameter 13 [0xAA] []])) =
     Inr (Tag (Some ''aa'') 0) \<and>
   tickQueue (final (forEach_callback stub_modules
     (Parameter 240 [] [Parameter 8 [0, 2] []]) (llrpMain default_config))) = []"
proof -
  have a: "mapSubParameters (Parameter 240 [] [Parameter 13 [0xAA] []])
      (TagSeenCount stub_modules) = None"
    by (simp add: stub_modules_def llrp_modules_def mapSubParameters_def)
  have a': "map_option toString_hex (mapSubParameters (Parameter 240 [] [Parameter 13 [0xAA] []])
      (EPC96 stub_modules)) = Some ''aa''"
    by (simp add: stub_modules_def llrp_modules_def mapSubParameters_def
        toString_hex_def hexDigit_def)
  have b: "mapSubParameters (Parameter 240 [] [Parameter 8 [0, 2] []])
      (EPC96 stub_modules) = None"
    by (simp add: stub_modules_def llrp_modules_def mapSubParameters_def)
  have c: "tickQueue (llrpMain default_config) = []"
    by (simp add: llrpMain_def)
  from missing_field_defaults
      [of "Parameter 240 [] [Parameter 13 [0xAA] []]" stub_modules,
       THEN conjunct1, THEN mp, OF a]
    missing_field_defaults
      [of "Parameter 240 [] [Parameter 8 [0, 2] []]" stub_modules
        _ "llrpMain default_config", THEN conjunct2, THEN conjunct2, THEN mp, OF b] a' c
  show ?thesis by simp
qed

section \<open>An identifier of zero bytes\<close>

text \<open>
  Claim C10 (identifier of zero bytes). When the flattened identifier value has no
  byte, every tag that is built has the empty string as \<^verbatim>\<open>tagID\<close>, which is not
  \<^verbatim>\<open>null\<close> and not truthy (and the tag is built when there is no count
  sub-parameter); the callback neither queues a publication nor emits anything.
\<close>

theorem empty_identifier_suppressed:
  assumes "mapSubParameters p (EPC96 md) = Some []"
  shows "(\<forall>t. buildTag md (mapSubParameters p) = Inr t \<longrightarrow>
            tagID t = Some [] \<and> tagID t \<noteq> None \<and> \<not> truthy (tagID t)) \<and>
         (mapSubParameters p (TagSeenCount md) = None \<longrightarrow>
            buildTag md (mapSubParameters p) = Inr (Tag (Some []) 0)) \<and>
         tickQueue (final (forEach_callback md p s)) = tickQueue s \<and>
         (\<forall>t. Emit_didSeeTag t \<notin> set (new_events s (final (forEach_callback md p s))))"
  using assms
  by (auto simp: buildTag_def forEach_callback_def Let_def truthy_def new_events_def
      console_log_def record_event_def toString_hex_def split: option.splits sum.splits)

theorem empty_identifier_suppressed_witness:
  "buildTag stub_modules (mapSubParameters (Parameter 240 [] [Parameter 13 [] []])) =
     Inr (Tag (Some []) 0) \<and>
   tickQueue (final (forEach_callback stub_modules
     (Parameter 240 [] [Parameter 13 [] []]) (llrpMain default_config))) = []"
proof -
  have a: "mapSubParameters (Parameter 240 [] [Parameter 13 [] []])
      (EPC96 stub_modules) = Some []"
    by (simp add: stub_modules_def llrp_modules_def mapSubParameters_def)
  have b: "mapSubParameters (Parameter 240 [] [Parameter 13 [] []])
      (TagSeenCount stub_modules) = None"
    by (simp add: stub_modules_def llrp_modules_def mapSubParameters_def)
  have c: "tickQueue (llrpMain default_config) = []"
    by (simp add: llrpMain_def)
  from empty_identifier_suppressed [OF a, of "llrpMain default_config"] b c
  show ?thesis by simp
qed

section \<open>Undefined and empty chunks\<close>

text \<open>
  Claim C6 (empty-data tolerance), amended. A chunk that is \<^verbatim>\<open>null\<close> or
  \<^verbatim>\<open>undefined\<close> is dropped: the callback returns, its only effect is the console line
  when logging is on (no decoder call, no write, no emitted event), and the two flags
  and the tick queue are as they were. A chunk of zero bytes is not dropped by the
  callback: it is handed to the decoder, and nothing further happens when the decoder
  returns no message for it.
\<close>

theorem undefined_data_dropped:
  "onData md None s = Inr (console_log Log_Undefined_data s) \<and>
   new_events s (final (onData md None s)) =
     (if log s then [Console_log Log_Undefined_data] else []) \<and>
   isReaderConfigSet (final (onData md None s)) = isReaderConfigSet s \<and>
   isStartROSpecSent (final (onData md None s)) = isStartROSpecSent s \<and>
   tickQueue (final (onData md None s)) = tickQueue s \<and>
   (decode_message md [] = [] \<longrightarrow>
      onData md (Some []) s = Inr (record_event (Call_decode_message []) s))"
  by (simp add: onData_def console_log_def record_event_def new_events_def)

theorem undefined_data_dropped_witness:
  "onData stub_modules (Some []) (llrpMain default_config) =
     Inr (record_event (Call_decode_message []) (llrpMain default_config)) \<and>
   new_events (llrpMain default_config)
     (final (onData stub_modules None (llrpMain default_config))) = []"
proof -
  have a: "decode_message stub_modules [] = []"
    by (simp add: stub_modules_def llrp_modules_def stub_decode_message_def)
  have b: "\<not> log (llrpMain default_config)"
    by (simp add: llrpMain_def default_config_def)
  from undefined_data_dropped [of stub_modules "llrpMain default_config"] a b
  show ?thesis by metis
qed

text \<open>
  The claim as it was stated fails on the empty chunk: the decoder is called.
\<close>

theorem empty_data_counterexample:
  "Call_decode_message [] \<in>
     set (trace (final (onData stub_modules (Some []) (llrpMain default_config))))"
  by code_simp

section \<open>The configuration surface\<close>

text \<open>
  Claim C9 (configuration surface), amended. The session is determined by five
  properties of the configuration object: the address, the port, the logging flag and
  the initial values of \<^verbatim>\<open>isReaderConfigSet\<close> and \<^verbatim>\<open>isStartROSpecSent\<close>. Two
  configuration objects that agree on these five, whatever else they carry, give the same
  session and the same behaviour on every sequence of deliveries.
\<close>

theorem configuration_surface:
  fixes c1 :: "'a config_scheme" and c2 :: "'b config_scheme"
  assumes "config_ipaddress c1 = config_ipaddress c2"
    and "config_port c1 = config_port c2"
    and "config_log c1 = config_log c2"
    and "config_isReaderConfigSet c1 = config_isReaderConfigSet c2"
    and "config_isStartROSpecSent c1 = config_isStartROSpecSent c2"
  shows "llrpMain c1 = llrpMain c2 \<and>
         deliveries md ds (llrpMain c1) = deliveries md ds (llrpMain c2)"
  using assms by (simp add: llrpMain_def)

theorem configuration_surface_witness:
  "deliveries stub_modules [Some [3], Some [1]] (llrpMain default_config) =
   deliveries stub_modules [Some [3], Some [1]]
     (llrpMain \<lparr> config_ipaddress = None, config_port = None, config_log = None,
        config_isReaderConfigSet = None, config_isStartROSpecSent = None,
        \<dots> = ''antenna'' \<rparr>)"
  using configuration_surface
    [of default_config
      "\<lparr> config_ipaddress = None, config_port = None, config_log = None,
         config_isReaderConfigSet = None, config_isStartROSpecSent = None,
         \<dots> = ''antenna'' \<rparr>"
      stub_modules "[Some [3], Some [1]]"]
  by (simp add: default_config_def)

text \<open>
  The claim as it was stated fails: two configuration objects that agree on address,
  port and logging flag, and differ in \<^verbatim>\<open>isReaderConfigSet\<close>, answer the same reader
  event with different commands.
\<close>

theorem configuration_surface_counterexample:
  "config_ipaddress default_config = config_ipaddress preset_config \<and>
   config_port default_config = config_port preset_config \<and>
   config_log default_config = config_log preset_config \<and>
   writes (trace (final (deliveries stub_modules [Some [3]] (llrpMain default_config)))) =
     [bSetReaderConfig] \<and>
   writes (trace (final (deliveries stub_modules [Some [3]] (llrpMain preset_config)))) =
     [bStartRoSpec]"
  by code_simp

section \<open>Message-batch ordering\<close>

lemma messages_loop_no_report:
  "\<forall>m\<in>set msgs. \<not> is_report md m \<Longrightarrow>
   messages_loop md msgs s = actions_in_order md msgs s"
  by (induction msgs arbitrary: s) (simp_all add: action_def split: sum.split)

lemma dispatch_report:
  "is_report md msg \<Longrightarrow>
   dispatch md msg s = Inr (s\<lparr>tickQueue := tickQueue s @ [Tick_handleROAccessReport msg]\<rparr>)"
  by (simp add: is_report_def dispatch_def handleROAccessReport_def process_nextTick_def)

lemma tickQueue_dispatch:
  "tickQueue (final (dispatch md msg s)) =
     tickQueue s @ (if is_report md msg then [Tick_handleROAccessReport msg] else [])"
  by (simp add: dispatch_def is_report_def tickQueue_handleReaderNotification
      handleROAccessReport_def process_nextTick_def)

lemma tickQueue_messages_loop:
  "messages_loop md msgs s = Inr s1 \<Longrightarrow>
   tickQueue s1 = tickQueue s @ map Tick_handleROAccessReport (filter (is_report md) msgs)"
proof (induction msgs arbitrary: s)
  case Nil
  then show ?case by simp
next
  case (Cons msg msgs)
  from Cons.prems obtain s2 where
    d: "dispatch md msg (console_log (Log_Receiving msg) s) = Inr s2"
    and l: "messages_loop md msgs s2 = Inr s1"
    by (auto split: sum.splits)
  from tickQueue_dispatch [of md msg "console_log (Log_Receiving msg) s"] d
  have "tickQueue s2 =
      tickQueue s @ (if is_report md msg then [Tick_handleROAccessReport msg] else [])"
    by simp
  with Cons.IH [OF l] show ?case by simp
qed

lemma messages_loop_append:
  "messages_loop md (msgs1 @ msgs2) s =
     (case messages_loop md msgs1 s of
        Inl e \<Rightarrow> Inl e
      | Inr s1 \<Rightarrow> messages_loop md msgs2 s1)"
  by (induction msgs1 arbitrary: s) (simp_all split: sum.split)

lemma pending_tags_simps [simp]:
  "pending_tags [] = []"
  "pending_tags (Tick_emit tg # q) = tg # pending_tags q"
  "pending_tags (Tick_handleROAccessReport msg # q) = pending_tags q"
  by (simp_all add: pending_tags_def)

lemma pending_tags_emits [simp]: "pending_tags (map Tick_emit tags) = tags"
  by (induction tags) simp_all

lemma tickQueue_forEach_callback_emits:
  "forEach_callback md p s = Inr s' \<Longrightarrow>
   \<exists>new. tickQueue s' = tickQueue s @ map Tick_emit new"
proof -
  assume a: "forEach_callback md p s = Inr s'"
  have "tickQueue s' = tickQueue s @ map Tick_emit [] \<or>
        (\<exists>t. tickQueue s' = tickQueue s @ map Tick_emit [t])"
    using a
    by (auto simp: forEach_callback_def Let_def process_nextTick_def
        split: if_splits sum.splits)
  then show ?thesis by blast
qed

lemma tickQueue_forEach_emits:
  "forEach md ps s = Inr s' \<Longrightarrow> \<exists>new. tickQueue s' = tickQueue s @ map Tick_emit new"
proof (induction ps arbitrary: s)
  case Nil
  then have "tickQueue s' = tickQueue s @ map Tick_emit []" by simp
  then show ?case by blast
next
  case (Cons p ps)
  from Cons.prems obtain s1 where
    a: "forEach_callback md p s = Inr s1" and b: "forEach md ps s1 = Inr s'"
    by (auto split: sum.splits)
  from tickQueue_forEach_callback_emits [OF a] obtain n1 where
    "tickQueue s1 = tickQueue s @ map Tick_emit n1" ..
  moreover from Cons.IH [OF b] obtain n2 where
    "tickQueue s' = tickQueue s1 @ map Tick_emit n2" ..
  ultimately have "tickQueue s' = tickQueue s @ map Tick_emit (n1 @ n2)" by simp
  then show ?case by blast
qed

lemma tickQueue_handleROAccessReport_tick_emits:
  assumes "handleROAccessReport_tick md msg s = Inr s'"
  shows "\<exists>new. tickQueue s' = tickQueue s @ map Tick_emit new"
proof (cases "decode_parameter md (getParameter msg)")
  case None
  with assms have "tickQueue s' = tickQueue s @ map Tick_emit []"
    by (auto simp: handleROAccessReport_tick_def Let_def)
  then show ?thesis by blast
next
  case (Some ps)
  with assms have "forEach md ps (record_event (Call_decode_parameter (getParameter msg))
         (console_log Log_RO_ACCESS_REPORT (resetIsStartROSpecSent s))) = Inr s'"
    by (simp add: handleROAccessReport_tick_def Let_def)
  from tickQueue_forEach_emits [OF this] show ?thesis by simp
qed

lemma runTicks_emits:
  "tickQueue s = map Tick_emit tags \<Longrightarrow> runTicks md s = Inr (publish_pending s)"
proof (induction tags arbitrary: s)
  case Nil
  then show ?case by (simp add: runTicks_Nil publish_pending_def)
next
  case (Cons t tags)
  let ?s1 = "record_event (Emit_didSeeTag t) (s\<lparr>tickQueue := map Tick_emit tags\<rparr>)"
  from Cons.prems have q: "tickQueue s = Tick_emit t # map Tick_emit tags" by simp
  have "tickQueue ?s1 = map Tick_emit tags" by simp
  from Cons.IH [OF this] have "runTicks md ?s1 = Inr (publish_pending ?s1)" .
  moreover have "publish_pending ?s1 = publish_pending s"
    using q by (simp add: publish_pending_def record_event_def)
  ultimately show ?case
    by (simp add: runTicks_Cons [OF q])
qed

lemma runTicks_report_bodies:
  "tickQueue s = map Tick_handleROAccessReport msgs @ map Tick_emit tags \<Longrightarrow>
   runTicks md s =
     (case report_bodies md msgs s of
        Inl e \<Rightarrow> Inl e
      | Inr s2 \<Rightarrow> Inr (publish_pending s2)) \<and>
   (\<forall>s2. report_bodies md msgs s = Inr s2 \<longrightarrow>
      tickQueue s2 = map Tick_emit (pending_tags (tickQueue s2)))"
proof (induction msgs arbitrary: s tags)
  case Nil
  then show ?case by (simp add: runTicks_emits)
next
  case (Cons msg msgs)
  let ?q = "map Tick_handleROAccessReport msgs @ map Tick_emit tags"
  from Cons.prems have q: "tickQueue s = Tick_handleROAccessReport msg # ?q" by simp
  then have tl: "s\<lparr>tickQueue := tl (tickQueue s)\<rparr> = s\<lparr>tickQueue := ?q\<rparr>" by simp
  show ?case
  proof (cases "handleROAccessReport_tick md msg (s\<lparr>tickQueue := ?q\<rparr>)")
    case (Inl e)
    then show ?thesis by (simp add: runTicks_Cons [OF q] tl)
  next
    case (Inr s1)
    from tickQueue_handleROAccessReport_tick_emits [OF Inr] obtain new where
      "tickQueue s1 = ?q @ map Tick_emit new"
      by auto
    then have "tickQueue s1 =
        map Tick_handleROAccessReport msgs @ map Tick_emit (tags @ new)"
      by simp
    from Cons.IH [OF this] Inr show ?thesis
      by (simp add: runTicks_Cons [OF q] tl)
  qed
qed

lemma runTicks_drains: "runTicks md s = Inr s' \<Longrightarrow> tickQueue s' = []"
proof (induction md s rule: runTicks.induct)
  case (1 md s)
  show ?case
  proof (cases "tickQueue s")
    case Nil
    with "1.prems" show ?thesis by (simp add: runTicks_Nil)
  next
    case (Cons t q)
    from "1.prems" obtain s1 where
      a: "runTask md t (s\<lparr>tickQueue := q\<rparr>) = Inr s1" and b: "runTicks md s1 = Inr s'"
      by (auto simp: runTicks_Cons [OF Cons] split: sum.splits)
    from "1.IH" [OF Cons a b] show ?thesis .
  qed
qed

lemma deliver_deferred_eq:
  assumes "tickQueue s = []"
  shows "deliver md (Some d) s = deliver_deferred md d s \<and>
    (\<forall>s1 s2. onData md (Some d) s = Inr s1 \<and>
       report_bodies md (filter (is_report md) (decode_message md d)) s1 = Inr s2 \<longrightarrow>
       tickQueue s2 = map Tick_emit (pending_tags (tickQueue s2)))"
proof (cases "onData md (Some d) s")
  case (Inl e)
  then show ?thesis by (simp add: deliver_def deliver_deferred_def)
next
  case (Inr s1)
  then have "messages_loop md (decode_message md d)
      (record_event (Call_decode_message d) s) = Inr s1"
    by (simp add: onData_def)
  from tickQueue_messages_loop [OF this] assms
  have "tickQueue s1 =
      map Tick_handleROAccessReport (filter (is_report md) (decode_message md d)) @
      map Tick_emit []"
    by simp
  from runTicks_report_bodies [OF this, of md] Inr show ?thesis
    by (simp add: deliver_def deliver_deferred_def)
qed

lemma deliver_drains: "deliver md data s = Inr s' \<Longrightarrow> tickQueue s' = []"
  by (auto simp: deliver_def split: sum.splits dest: runTicks_drains)

text \<open>
  Claim C5 (message-batch ordering), amended. The messages of one delivery are
  dispatched in decode order, and the dispatch of every prefix of the batch is complete
  before the rest is dispatched. For a message other than a tag report the dispatch is
  its whole action, so a delivery without tag reports is the execution of the complete
  actions in order. Dispatching a tag report does nothing but queue its action: when
  the callback returns, the queue holds the actions of the batch's tag reports in
  message order, behind what was queued before. A delivery to a session whose queue is
  empty is exactly this: every message of the batch is dispatched; then the bodies of
  the batch's tag reports run, in message order; then the tags that the bodies queued
  are published, in order. If a dispatch throws, no body runs; if a body throws, no
  later body runs and nothing is published. After the bodies the queue holds
  publications only, and a delivery that returns leaves the queue empty.
\<close>

theorem message_batch_ordering:
  "(\<forall>msgs1 msgs2. decode_message md d = msgs1 @ msgs2 \<longrightarrow>
      onData md (Some d) s =
        (case messages_loop md msgs1 (record_event (Call_decode_message d) s) of
           Inl e \<Rightarrow> Inl e
         | Inr s1 \<Rightarrow> messages_loop md msgs2 s1)) \<and>
   ((\<forall>m\<in>set (decode_message md d). \<not> is_report md m) \<longrightarrow>
      deliver md (Some d) s = deliver_in_order md d s) \<and>
   (is_report md msg \<longrightarrow>
      dispatch md msg s =
        Inr (s\<lparr>tickQueue := tickQueue s @ [Tick_handleROAccessReport msg]\<rparr>)) \<and>
   (\<forall>s1. onData md (Some d) s = Inr s1 \<longrightarrow>
      tickQueue s1 =
        tickQueue s @
        map Tick_handleROAccessReport (filter (is_report md) (decode_message md d))) \<and>
   (\<forall>t q. tickQueue s = t # q \<longrightarrow>
      runTicks md s =
        (case runTask md t (s\<lparr>tickQueue := q\<rparr>) of
           Inl e \<Rightarrow> Inl e
         | Inr s1 \<Rightarrow> runTicks md s1)) \<and>
   (tickQueue s = [] \<longrightarrow> deliver md (Some d) s = deliver_deferred md d s) \<and>
   (\<forall>s1 s2. tickQueue s = [] \<and> onData md (Some d) s = Inr s1 \<and>
      report_bodies md (filter (is_report md) (decode_message md d)) s1 = Inr s2 \<longrightarrow>
      tickQueue s2 = map Tick_emit (pending_tags (tickQueue s2))) \<and>
   (\<forall>data s'. deliver md data s = Inr s' \<longrightarrow> tickQueue s' = [])"
proof (intro conjI impI allI)
  fix msgs1 msgs2
  assume "decode_message md d = msgs1 @ msgs2"
  then show "onData md (Some d) s =
        (case messages_loop md msgs1 (record_event (Call_decode_message d) s) of
           Inl e \<Rightarrow> Inl e
         | Inr s1 \<Rightarrow> messages_loop md msgs2 s1)"
    by (simp add: onData_def messages_loop_append)
next
  assume "\<forall>m\<in>set (decode_message md d). \<not> is_report md m"
  then show "deliver md (Some d) s = deliver_in_order md d s"
    by (simp add: deliver_def deliver_in_order_def onData_def messages_loop_no_report)
next
  assume "is_report md msg"
  then show "dispatch md msg s =
      Inr (s\<lparr>tickQueue := tickQueue s @ [Tick_handleROAccessReport msg]\<rparr>)"
    by (rule dispatch_report)
next
  fix s1
  assume "onData md (Some d) s = Inr s1"
  then have "messages_loop md (decode_message md d)
      (record_event (Call_decode_message d) s) = Inr s1"
    by (simp add: onData_def)
  from tickQueue_messages_loop [OF this]
  show "tickQueue s1 =
        tickQueue s @
        map Tick_handleROAccessReport (filter (is_report md) (decode_message md d))"
    by simp
next
  fix t q
  assume "tickQueue s = t # q"
  then show "runTicks md s =
        (case runTask md t (s\<lparr>tickQueue := q\<rparr>) of
           Inl e \<Rightarrow> Inl e
         | Inr s1 \<Rightarrow> runTicks md s1)"
    by (rule runTicks_Cons)
next
  assume "tickQueue s = []"
  then show "deliver md (Some d) s = deliver_deferred md d s"
    by (simp add: deliver_deferred_eq)
next
  fix s1 s2
  assume "tickQueue s = [] \<and> onData md (Some d) s = Inr s1 \<and>
      report_bodies md (filter (is_report md) (decode_message md d)) s1 = Inr s2"
  with deliver_deferred_eq [of s md d]
  show "tickQueue s2 = map Tick_emit (pending_tags (tickQueue s2))"
    by blast
next
  fix data s'
  assume "deliver md data s = Inr s'"
  then show "tickQueue s' = []"
    by (rule deliver_drains)
qed

theorem message_batch_ordering_witness:
  "deliver stub_modules (Some [2]) (llrpMain default_config) =
     deliver_in_order stub_modules [2] (llrpMain default_config) \<and>
   dispatch stub_modules (Message 61 []) (llrpMain started_config) =
     Inr ((llrpMain started_config)
       \<lparr>tickQueue := tickQueue (llrpMain started_config) @
          [Tick_handleROAccessReport (Message 61 [])]\<rparr>) \<and>
   tickQueue (final (onData stub_modules (Some [4]) (llrpMain started_config))) =
     [Tick_handleROAccessReport (Message 61 [])] \<and>
   trace (final (deliver stub_modules (Some [6]) (llrpMain default_config))) =
     [Call_decode_message [6], Assign_isStartROSpecSent True, Write bStartRoSpec,
      Assign_isStartROSpecSent False, Call_decode_parameter [7],
      Assign_isStartROSpecSent False, Call_decode_parameter [],
      Emit_didSeeTag (Tag (Some ''aabbccddeeff'') 2)] \<and>
   tickQueue (final (deliver stub_modules (Some [6]) (llrpMain default_config))) = []"
proof -
  have q: "tickQueue (llrpMain default_config) = []"
    by (simp add: llrpMain_def)
  have e: "trace (final (deliver_deferred stub_modules [6] (llrpMain default_config))) =
     [Call_decode_message [6], Assign_isStartROSpecSent True, Write bStartRoSpec,
      Assign_isStartROSpecSent False, Call_decode_parameter [7],
      Assign_isStartROSpecSent False, Call_decode_parameter [],
      Emit_didSeeTag (Tag (Some ''aabbccddeeff'') 2)]"
    by code_simp
  have f: "deliver stub_modules (Some [6]) (llrpMain default_config) =
      Inr (final (deliver stub_modules (Some [6]) (llrpMain default_config)))"
    by code_simp
  have a: "\<forall>m\<in>set (decode_message stub_modules [2]). \<not> is_report stub_modules m"
    by (simp add: stub_modules_def llrp_modules_def stub_decode_message_def is_report_def)
  have b: "is_report stub_modules (Message 61 [])"
    by (simp add: stub_modules_def llrp_modules_def is_report_def)
  have c: "onData stub_modules (Some [4]) (llrpMain started_config) =
      Inr (final (onData stub_modules (Some [4]) (llrpMain started_config)))"
    by code_simp
  have d: "tickQueue (llrpMain started_config) @
      map Tick_handleROAccessReport
        (filter (is_report stub_modules) (decode_message stub_modules [4])) =
      [Tick_handleROAccessReport (Message 61 [])]"
    by code_simp
  from message_batch_ordering [where md = stub_modules and d = "[2]" and s = "llrpMain default_config",
      THEN conjunct2, THEN conjunct1, THEN mp, OF a]
    message_batch_ordering [where md = stub_modules and msg = "Message 61 []" and s = "llrpMain started_config",
      THEN conjunct2, THEN conjunct2, THEN conjunct1, THEN mp, OF b]
    message_batch_ordering [where md = stub_modules and d = "[4]" and s = "llrpMain started_config",
      THEN conjunct2, THEN conjunct2, THEN conjunct2, THEN conjunct1, rule_format, OF c] d
    message_batch_ordering [where md = stub_modules and d = "[6]" and s = "llrpMain default_config",
      THEN conjunct2, THEN conjunct2, THEN conjunct2, THEN conjunct2, THEN conjunct2,
      THEN conjunct1, THEN mp, OF q] e
    message_batch_ordering [where md = stub_modules and s = "llrpMain default_config",
      THEN conjunct2, THEN conjunct2, THEN conjunct2, THEN conjunct2, THEN conjunct2,
      THEN conjunct2, THEN conjunct2, rule_format, OF f]
  show ?thesis by simp
qed

text \<open>
  The claim as it was stated fails on a delivery of a tag report followed by an
  enable-read-spec response, in a session whose start flag is set: performing the
  report's action first would clear the flag and the response would send
  start-read-spec, but the report's action runs after the response has been
  dispatched, and no command is written.
\<close>

theorem message_batch_ordering_counterexample:
  "decode_message stub_modules [4] = [Message 61 [], Message 34 []] \<and>
   writes (trace (final (deliver_in_order stub_modules [4] (llrpMain started_config)))) =
     [bStartRoSpec] \<and>
   writes (trace (final (deliver stub_modules (Some [4]) (llrpMain started_config)))) = []"
  by code_simp

end
